theory Spec2Isabelle
  imports Main "HOL-Library.Word" "HOL-Library.Sublist"
begin

section \<open>JavaScript strings\<close>

text \<open>
  A JavaScript string is a sequence of 16-bit code units. The helper \<open>js\<close> turns an
  ASCII literal into such a sequence, so that the string constants of \<^verbatim>\<open>main.ts\<close> can
  be written as they are in the source.
\<close>

type_synonym jschar = "16 word"
type_synonym jsstring = "jschar list"

definition js :: "string \<Rightarrow> jsstring" where
  "js s = map of_char s"

text \<open>The character class \<^verbatim>\<open>\s\<close> of ECMAScript: WhiteSpace and LineTerminator.\<close>

definition isSpace :: "jschar \<Rightarrow> bool" where
  "isSpace c \<longleftrightarrow>
     c = 0x09 \<or> c = 0x0A \<or> c = 0x0B \<or> c = 0x0C \<or> c = 0x0D \<or> c = 0x20 \<or> c = 0xA0 \<or>
     c = 0x1680 \<or> (0x2000 \<le> c \<and> c \<le> 0x200A) \<or> c = 0x2028 \<or> c = 0x2029 \<or>
     c = 0x202F \<or> c = 0x205F \<or> c = 0x3000 \<or> c = 0xFEFF"

text \<open>The characters that \<^verbatim>\<open>.\<close> does not match (no \<^verbatim>\<open>s\<close> flag).\<close>

definition isLineTerminator :: "jschar \<Rightarrow> bool" where
  "isLineTerminator c \<longleftrightarrow> c = 0x0A \<or> c = 0x0D \<or> c = 0x2028 \<or> c = 0x2029"

text \<open>The character class \<^verbatim>\<open>[a-zA-Z0-9-]\<close> of \<^verbatim>\<open>blockIDRegex\<close>.\<close>

definition isIDChar :: "jschar \<Rightarrow> bool" where
  "isIDChar c \<longleftrightarrow>
     (0x61 \<le> c \<and> c \<le> 0x7A) \<or> (0x41 \<le> c \<and> c \<le> 0x5A) \<or> (0x30 \<le> c \<and> c \<le> 0x39) \<or> c = 0x2D"

definition isDigit :: "jschar \<Rightarrow> bool" where
  "isDigit c \<longleftrightarrow> 0x30 \<le> c \<and> c \<le> 0x39"

definition digitValue :: "jschar \<Rightarrow> nat" where
  "digitValue c = unat c - 48"

text \<open>
  \<^verbatim>\<open>String.prototype.slice(start, end)\<close>: a negative argument counts from the end of the
  string, both are clamped to the string, and an empty range gives the empty string.
\<close>

definition slice :: "'a list \<Rightarrow> int \<Rightarrow> int \<Rightarrow> 'a list" where
  "slice s start end =
     (let len = int (length s);
          from = (if start < 0 then max (len + start) 0 else min start len);
          to = (if end < 0 then max (len + end) 0 else min end len)
      in take (nat (to - from)) (drop (nat from) s))"

text \<open>\<^verbatim>\<open>Array.prototype.join(sep)\<close> on an array of strings.\<close>

fun join :: "'a list \<Rightarrow> 'a list list \<Rightarrow> 'a list" where
  "join sep [] = []"
| "join sep [x] = x"
| "join sep (x # y # ys) = x @ sep @ join sep (y # ys)"

section \<open>Regular expressions\<close>

text \<open>
  The result of \<^verbatim>\<open>RegExp.prototype.exec\<close>: the index of the match, the matched text
  (element 0 of the result array), the numbered captures (\<open>None\<close> for a group that did
  not take part) and the named groups (\<open>None\<close> when the pattern has no named group).
  A regular expression without the \<^verbatim>\<open>g\<close> and \<^verbatim>\<open>y\<close> flags is modelled by what
  \<^verbatim>\<open>exec\<close> returns on a string.
\<close>

record RegExpMatch =
  index :: nat
  matched :: jsstring
  captures :: "jsstring option list"
  groups :: "(jsstring \<times> jsstring option) list option"

type_synonym RegExp = "jsstring \<Rightarrow> RegExpMatch option"

definition simpleMatch :: "nat \<Rightarrow> jsstring \<Rightarrow> RegExpMatch" where
  "simpleMatch i m = \<lparr>index = i, matched = m, captures = [], groups = None\<rparr>"

text \<open>
  A pattern is tried at the start positions \<open>0, 1, \<dots>, length s\<close> from left to right; the
  first position at which it matches gives the result. \<open>regexScan attempt i k\<close> tries the
  positions \<open>i, \<dots>, i + k\<close>.
\<close>

fun regexScan :: "(nat \<Rightarrow> 'a option) \<Rightarrow> nat \<Rightarrow> nat \<Rightarrow> 'a option" where
  "regexScan attempt i 0 = attempt i"
| "regexScan attempt i (Suc k) =
     (case attempt i of Some m \<Rightarrow> Some m | None \<Rightarrow> regexScan attempt (Suc i) k)"

text \<open>
  \<^verbatim>\<open>/^\s*/\<close> (line 81): only position 0 can match, and the greedy \<^verbatim>\<open>\s*\<close> takes the
  longest run of whitespace there.
\<close>

definition leadingWhitespaceRegex :: RegExp where
  "leadingWhitespaceRegex s = Some (simpleMatch 0 (takeWhile isSpace s))"

text \<open>\<^verbatim>\<open>/^\s*$/\<close> (line 95): matches exactly the strings made of whitespace only.\<close>

definition blankLineRegex :: RegExp where
  "blankLineRegex s = (if list_all isSpace s then Some (simpleMatch 0 s) else None)"

text \<open>
  \<^verbatim>\<open>blockIDRegex = /(?<=[\s^])\^[a-zA-Z0-9-]+$/u\<close> (line 44). At position \<open>i\<close> the
  lookbehind needs a character before \<open>i\<close> that is in the class \<^verbatim>\<open>[\s^]\<close>: whitespace or
  a caret (inside a class, a caret that is not the first character stands for itself).
  Then come a caret and one or more class characters up to the end of the string.
\<close>

definition blockIDAttempt :: "jsstring \<Rightarrow> nat \<Rightarrow> RegExpMatch option" where
  "blockIDAttempt s i =
     (if 0 < i \<and> i < length s \<and> (isSpace (s ! (i - 1)) \<or> s ! (i - 1) = 0x5E) \<and> s ! i = 0x5E \<and>
         drop (Suc i) s \<noteq> [] \<and> list_all isIDChar (drop (Suc i) s)
      then Some (simpleMatch i (drop i s)) else None)"

definition blockIDRegex :: RegExp where
  "blockIDRegex s = regexScan (blockIDAttempt s) 0 (length s)"

text \<open>
  \<^verbatim>\<open>/\s*?$/\<close> (line 116): at position \<open>i\<close> the lazy \<^verbatim>\<open>\s*?\<close> is extended one whitespace
  character at a time until the end of the string is reached, so the pattern matches at
  \<open>i\<close> exactly when everything from \<open>i\<close> on is whitespace.
\<close>

definition trailingWhitespaceAttempt :: "jsstring \<Rightarrow> nat \<Rightarrow> RegExpMatch option" where
  "trailingWhitespaceAttempt s i =
     (if list_all isSpace (drop i s) then Some (simpleMatch i (drop i s)) else None)"

definition trailingWhitespaceRegex :: RegExp where
  "trailingWhitespaceRegex s = regexScan (trailingWhitespaceAttempt s) 0 (length s)"

text \<open>\<^verbatim>\<open>/]]$/\<close> (lines 122, 126, 142, 148).\<close>

definition closeBracketsAttempt :: "jsstring \<Rightarrow> nat \<Rightarrow> RegExpMatch option" where
  "closeBracketsAttempt s i =
     (if drop i s = js '']]'' then Some (simpleMatch i (js '']]'')) else None)"

definition closeBracketsRegex :: RegExp where
  "closeBracketsRegex s = regexScan (closeBracketsAttempt s) 0 (length s)"

text \<open>
  \<^verbatim>\<open>/{{LINK(\|?.*)}}/\<close> (lines 122, 126, 142, 148). After \<^verbatim>\<open>{{LINK\<close> the group takes an
  optional bar and then, greedily, every character up to the next line terminator;
  the engine gives characters back one at a time until \<^verbatim>\<open>}}\<close> follows. \<open>findClose rest k\<close>
  is that backtracking: the largest \<open>k' \<le> k\<close> at which \<^verbatim>\<open>}}\<close> stands in \<open>rest\<close>. The
  capture is the same whether the bar was taken by \<^verbatim>\<open>\|?\<close> or by \<^verbatim>\<open>.*\<close>.
\<close>

fun findClose :: "jsstring \<Rightarrow> nat \<Rightarrow> nat option" where
  "findClose rest 0 = (if take 2 rest = js ''}}'' then Some 0 else None)"
| "findClose rest (Suc k) =
     (if take 2 (drop (Suc k) rest) = js ''}}'' then Some (Suc k) else findClose rest k)"

definition placeholderAttempt :: "jsstring \<Rightarrow> nat \<Rightarrow> RegExpMatch option" where
  "placeholderAttempt s i =
     (if take 6 (drop i s) = js ''{{LINK'' then
        (let rest = drop (i + 6) s;
             run = takeWhile (\<lambda>c. \<not> isLineTerminator c) rest
         in case findClose rest (length run) of
              None \<Rightarrow> None
            | Some k \<Rightarrow>
                Some \<lparr>index = i, matched = take (6 + k + 2) (drop i s),
                      captures = [Some (take k rest)], groups = None\<rparr>)
      else None)"

definition placeholderRegex :: RegExp where
  "placeholderRegex s = regexScan (placeholderAttempt s) 0 (length s)"

subsection \<open>Replacement\<close>

text \<open>
  \<^verbatim>\<open>GetSubstitution\<close> of ECMAScript: the expansion of a replacement string. \<^verbatim>\<open>$$\<close> is a
  dollar sign, \<^verbatim>\<open>$&\<close> the matched text, \<^verbatim>\<open>$`\<close> and \<^verbatim>\<open>$'\<close> the text before and after the
  match, \<^verbatim>\<open>$n\<close> and \<^verbatim>\<open>$nn\<close> a numbered capture (a two-digit index beyond the number of
  groups is read as one digit followed by a literal digit; an index that names no group
  stays as it is written), and \<^verbatim>\<open>$<name>\<close> a named capture when the pattern has named
  groups. Every other character stands for itself.
\<close>

definition captureText :: "jsstring option list \<Rightarrow> nat \<Rightarrow> jsstring" where
  "captureText caps n = (case caps ! (n - 1) of None \<Rightarrow> [] | Some c \<Rightarrow> c)"

definition namedCaptureText :: "(jsstring \<times> jsstring option) list \<Rightarrow> jsstring \<Rightarrow> jsstring" where
  "namedCaptureText named name =
     (case map_of named name of None \<Rightarrow> [] | Some None \<Rightarrow> [] | Some (Some c) \<Rightarrow> c)"

function getSubstitution ::
  "jsstring \<Rightarrow> jsstring \<Rightarrow> nat \<Rightarrow> jsstring option list \<Rightarrow>
   (jsstring \<times> jsstring option) list option \<Rightarrow> jsstring \<Rightarrow> jsstring" where
  "getSubstitution m str position caps named [] = []"
| "getSubstitution m str position caps named [c] = [c]"
| "getSubstitution m str position caps named (c # d # rest) =
     (if c \<noteq> 0x24 then c # getSubstitution m str position caps named (d # rest)
      else if d = 0x24 then 0x24 # getSubstitution m str position caps named rest
      else if d = 0x60 then take position str @ getSubstitution m str position caps named rest
      else if d = 0x26 then m @ getSubstitution m str position caps named rest
      else if d = 0x27 then
        drop (position + length m) str @ getSubstitution m str position caps named rest
      else if isDigit d then
        (if rest \<noteq> [] \<and> isDigit (hd rest) \<and>
            10 * digitValue d + digitValue (hd rest) \<le> length caps then
           (let n = 10 * digitValue d + digitValue (hd rest)
            in (if 1 \<le> n then captureText caps n else [c, d, hd rest]) @
               getSubstitution m str position caps named (tl rest))
         else
           (let n = digitValue d
            in (if 1 \<le> n \<and> n \<le> length caps then captureText caps n else [c, d]) @
               getSubstitution m str position caps named rest))
      else if d = 0x3C then
        (case named of
           None \<Rightarrow> [c, d] @ getSubstitution m str position caps named rest
         | Some ng \<Rightarrow>
             (if 0x3E \<in> set rest then
                namedCaptureText ng (takeWhile (\<lambda>x. x \<noteq> 0x3E) rest) @
                getSubstitution m str position caps named (tl (dropWhile (\<lambda>x. x \<noteq> 0x3E) rest))
              else [c, d] @ getSubstitution m str position caps named rest))
      else c # getSubstitution m str position caps named (d # rest))"
  by pat_completeness auto
termination
proof (relation "measure (\<lambda>(m, str, position, caps, named, t). length t)")
  show "wf (measure (\<lambda>(m, str, position, caps, named, t). length t))"
    by simp
next
  fix m str :: jsstring and position :: nat and caps :: "jsstring option list"
    and named :: "(jsstring \<times> jsstring option) list option"
    and c d :: jschar and rest :: jsstring and ng :: "(jsstring \<times> jsstring option) list"
  have "length (dropWhile (\<lambda>x. x \<noteq> 0x3E) rest) \<le> length rest"
    by (rule length_dropWhile_le)
  then have "length (tl (dropWhile (\<lambda>x. x \<noteq> 0x3E) rest)) \<le> length rest"
    by simp
  then show "((m, str, position, caps, named, tl (dropWhile (\<lambda>x. x \<noteq> 0x3E) rest)),
              (m, str, position, caps, named, c # d # rest))
             \<in> measure (\<lambda>(m, str, position, caps, named, t). length t)"
    by simp
qed (auto simp: less_Suc_eq_le)

text \<open>
  \<^verbatim>\<open>String.prototype.replace(regexp, replacement)\<close> for a regular expression without
  the \<^verbatim>\<open>g\<close> flag and a replacement string: the first match is replaced by the expansion
  of the replacement; a string without a match is returned as it is.
\<close>

definition replace :: "jsstring \<Rightarrow> RegExp \<Rightarrow> jsstring \<Rightarrow> jsstring" where
  "replace s re replacement =
     (case re s of
        None \<Rightarrow> s
      | Some m \<Rightarrow>
          take (index m) s @
          getSubstitution (matched m) s (index m) (captures m) (groups m) replacement @
          drop (index m + length (matched m)) s)"

section \<open>The plugin\<close>

subsection \<open>Settings, identifiers, copy types\<close>

record CarryForwardPluginSettings =
  linkText :: jsstring
  copiedLinkText :: jsstring
  lineFormatFrom :: jsstring
  lineFormatTo :: jsstring
  removeLeadingWhitespace :: bool

definition DEFAULT_SETTINGS :: CarryForwardPluginSettings where
  "DEFAULT_SETTINGS =
     \<lparr>linkText = [],
      copiedLinkText = js ''(see {{LINK}})'',
      lineFormatFrom = 0x5C # js ''s*$'',
      lineFormatTo = js '' (see {{LINK}})'',
      removeLeadingWhitespace = True\<rparr>"

definition characters :: jsstring where
  "characters = js ''abcdefghijklmnopqrstuvwxyz-0123456789''"

text \<open>
  \<^verbatim>\<open>genID\<close> (lines 28-35). \<^verbatim>\<open>Math.random()\<close> is the environment's: \<open>rnd k\<close> stands for
  the \<open>k\<close>-th value it returns during the call of the command, and since that value
  lies in \<open>[0, 1)\<close>, \<^verbatim>\<open>Math.floor(Math.random() * characters.length)\<close> is an index into
  \<open>characters\<close>, here \<open>rnd k mod length characters\<close>. The loop appends one character per
  round to the identifier \<open>ident\<close> (\<^verbatim>\<open>id\<close> in the source); \<open>pos\<close> counts the values
  drawn so far.
\<close>

function genIDLoop :: "(nat \<Rightarrow> nat) \<Rightarrow> nat \<Rightarrow> nat \<Rightarrow> jsstring \<Rightarrow> jsstring \<times> nat" where
  "genIDLoop rnd len pos ident =
     (if length ident < len
      then genIDLoop rnd len (Suc pos) (ident @ [characters ! (rnd pos mod length characters)])
      else (ident, pos))"
  by pat_completeness auto
termination
  by (relation "measure (\<lambda>(rnd, len, pos, ident). len - length ident)") auto

definition genID :: "(nat \<Rightarrow> nat) \<Rightarrow> nat \<Rightarrow> nat \<Rightarrow> jsstring \<times> nat" where
  "genID rnd len pos =
     (case genIDLoop rnd len pos [] of (ident, pos') \<Rightarrow> (slice ident 0 (int len), pos'))"

datatype CopyTypes = SeparateLines | CombinedLines | LinkOnly | LinkOnlyEmbed

subsection \<open>The host: editor, clipboard, notices\<close>

record EditorPosition =
  pos_line :: nat
  pos_ch :: nat

record Editor =
  lines :: "jsstring list"
  cursorFrom :: EditorPosition
  cursorTo :: EditorPosition

text \<open>
  What the command can observe and change: the editor, the clipboard and the notices
  shown to the user (text and duration in milliseconds, when one is given).
\<close>

record World =
  editor :: Editor
  clipboard :: jsstring
  notices :: "(jsstring \<times> nat option) list"

text \<open>
  What the command takes from its environment: the link the file manager generates for
  a subpath and an alias (the file and the source path \<^verbatim>\<open>"/"\<close> are fixed during a call),
  the constructor \<^verbatim>\<open>new RegExp(source, "u")\<close> (\<open>Inl\<close> is the text of the error it throws),
  the values of \<^verbatim>\<open>Math.random()\<close>, and whether the clipboard accepts a write.
\<close>

record Host =
  generateMarkdownLink :: "jsstring \<Rightarrow> jsstring \<Rightarrow> jsstring"
  newRegExp :: "jsstring \<Rightarrow> jsstring + RegExp"
  mathRandom :: "nat \<Rightarrow> nat"
  clipboardOk :: bool

datatype Exn = RangeError nat | SyntaxError jsstring

datatype Outcome = Returned World | Threw Exn World

text \<open>\<^verbatim>\<open>editor.getLine(n)\<close>; a line number outside the document is an error of the host.\<close>

definition getLine :: "Editor \<Rightarrow> nat \<Rightarrow> Exn + jsstring" where
  "getLine ed n = (if n < length (lines ed) then Inr (lines ed ! n) else Inl (RangeError n))"

definition Notice :: "jsstring \<Rightarrow> nat option \<Rightarrow> World \<Rightarrow> World" where
  "Notice message duration w = w\<lparr>notices := notices w @ [(message, duration)]\<rparr>"

text \<open>
  \<^verbatim>\<open>navigator.clipboard.writeText(text).then(() => new Notice("Copied"))\<close> (lines 165-167):
  the notice is shown only when the clipboard took the text.
\<close>

definition writeText :: "Host \<Rightarrow> jsstring \<Rightarrow> World \<Rightarrow> World" where
  "writeText host text w =
     (if clipboardOk host then Notice (js ''Copied'') None (w\<lparr>clipboard := text\<rparr>) else w)"

text \<open>The lines of a text, as the editor splits it at line feeds.\<close>

fun splitLines :: "jsstring \<Rightarrow> jsstring list" where
  "splitLines [] = [[]]"
| "splitLines (c # cs) =
     (if c = 0x0A then [] # splitLines cs
      else (case splitLines cs of [] \<Rightarrow> [[c]] | l # ls \<Rightarrow> (c # l) # ls))"

text \<open>
  \<^verbatim>\<open>editor.transaction\<close> (lines 169-175) with the single change of the command: the text
  from column 0 of line \<open>minLine\<close> to the end of line \<open>maxLine\<close> is replaced, and the
  selection is set to the positions it had.
\<close>

definition transaction ::
  "nat \<Rightarrow> nat \<Rightarrow> jsstring \<Rightarrow> EditorPosition \<Rightarrow> EditorPosition \<Rightarrow> World \<Rightarrow> World" where
  "transaction minLine maxLine text selFrom selTo w =
     w\<lparr>editor := (editor w)
          \<lparr>lines := take minLine (lines (editor w)) @ splitLines text @
                    drop (Suc maxLine) (lines (editor w)),
           cursorFrom := selFrom, cursorTo := selTo\<rparr>\<rparr>"

subsection \<open>validateRegex\<close>

text \<open>
  \<^verbatim>\<open>.replace(/\\n/g, "\n")\<close> and its two siblings (lines 261-263): every backslash
  followed by the letter \<open>l\<close> becomes the character \<open>r\<close>, from left to right.
\<close>

fun replaceEscape :: "jschar \<Rightarrow> jschar \<Rightarrow> jsstring \<Rightarrow> jsstring" where
  "replaceEscape l r (a # b # cs) =
     (if a = 0x5C \<and> b = l then r # replaceEscape l r cs else a # replaceEscape l r (b # cs))"
| "replaceEscape l r cs = cs"

record RegexValidation =
  valid :: bool
  string :: jsstring

definition updatedRegexString :: "jsstring \<Rightarrow> jsstring" where
  "updatedRegexString regexString =
     replaceEscape 0x72 0x0D (replaceEscape 0x74 0x09 (replaceEscape 0x6E 0x0A regexString))"

definition validateRegex :: "Host \<Rightarrow> jsstring \<Rightarrow> RegexValidation" where
  "validateRegex host regexString =
     (case newRegExp host (updatedRegexString regexString) of
        Inr re \<Rightarrow> \<lparr>valid = True, string = updatedRegexString regexString\<rparr>
      | Inl e \<Rightarrow>
          \<lparr>valid = False,
           string =
             [0x22] @ updatedRegexString regexString @ [0x22, 0x3A, 0x20, 0x22] @ e @ [0x22]\<rparr>)"

subsection \<open>copyForwardLines\<close>

text \<open>
  The expression
  \<^verbatim>\<open>template.replace(/{{LINK(\|?.*)}}/, `${link.replace(/]]$/, "")}$1]]`)\<close>, which the
  source writes out four times (lines 122, 126, 142, 148).
\<close>

definition substituteLink :: "jsstring \<Rightarrow> jsstring \<Rightarrow> jsstring" where
  "substituteLink template link =
     replace template placeholderRegex (replace link closeBracketsRegex [] @ js ''$1]]'')"

text \<open>Lines 77-92: the text of the line that goes into the copy, before any link is added.\<close>

definition copySlice ::
  "CarryForwardPluginSettings \<Rightarrow> EditorPosition \<Rightarrow> EditorPosition \<Rightarrow> nat \<Rightarrow> jsstring \<Rightarrow>
   jsstring" where
  "copySlice settings selFrom selTo lineNumber line =
     (let minLine = pos_line selFrom; maxLine = pos_line selTo;
          copiedLine = line;
          copiedLine =
            (if removeLeadingWhitespace settings = True \<and>
                (lineNumber = minLine \<and> pos_ch selFrom = pos_ch selTo)
             then replace copiedLine leadingWhitespaceRegex [] else copiedLine)
      in if (lineNumber = minLine \<or> lineNumber = maxLine) \<and>
            \<not> (minLine = maxLine \<and> pos_ch selFrom = pos_ch selTo)
         then slice line
                (if lineNumber = minLine then int (pos_ch selFrom) else 0)
                (if lineNumber = maxLine then int (pos_ch selTo) else int (length line) - 1)
         else copiedLine)"

text \<open>The state of the loop (lines 72-74), with the number of random values drawn.\<close>

record LoopState =
  updatedLines :: "jsstring list"
  copiedLines :: "jsstring list"
  newID :: jsstring
  draws :: nat

text \<open>
  Lines 103-152, for a line that gets a link: the updated line, its copy and the state.
  \<^verbatim>\<open>`#${blockID}`\<close> is the matched text, since the match array has one element.
\<close>

definition linkLine ::
  "Host \<Rightarrow> CarryForwardPluginSettings \<Rightarrow> CopyTypes \<Rightarrow> jsstring \<Rightarrow> jsstring \<Rightarrow> LoopState \<Rightarrow>
   Exn + jsstring \<times> jsstring \<times> LoopState" where
  "linkLine host settings copy line copiedLine st =
     (case blockIDRegex line of
        None \<Rightarrow>
          (case genID (mathRandom host) 5 (draws st) of (ident, pos) \<Rightarrow>
             (let newID' = js ''^'' @ ident;
                  st' = st\<lparr>newID := newID', draws := pos\<rparr>;
                  link = generateMarkdownLink host (js ''#'' @ newID') (linkText settings);
                  line' = replace line trailingWhitespaceRegex (js '' '' @ newID')
              in if copy = LinkOnly \<or> copy = LinkOnlyEmbed then
                   (let link = (if copy = LinkOnlyEmbed then js ''!'' else []) @ link
                    in Inr (line',
                            if copy = LinkOnlyEmbed then link
                            else substituteLink (copiedLinkText settings) link,
                            st'))
                 else
                   (case newRegExp host (lineFormatFrom settings) of
                      Inl e \<Rightarrow> Inl (SyntaxError e)
                    | Inr re \<Rightarrow>
                        Inr (line',
                             replace copiedLine re (substituteLink (lineFormatTo settings) link),
                             st'))))
      | Some blockID \<Rightarrow>
          (let link = generateMarkdownLink host (js ''#'' @ matched blockID) (linkText settings)
           in if copy = LinkOnly \<or> copy = LinkOnlyEmbed then
                (let link = (if copy = LinkOnlyEmbed then js ''!'' else []) @ link
                 in Inr (line,
                         if copy = LinkOnlyEmbed then link
                         else substituteLink (copiedLinkText settings) link,
                         st))
              else
                (case newRegExp host (lineFormatFrom settings) of
                   Inl e \<Rightarrow> Inl (SyntaxError e)
                 | Inr re \<Rightarrow>
                     Inr (line,
                          replace (replace copiedLine blockIDRegex []) re
                            (substituteLink (lineFormatTo settings) link),
                          st))))"

text \<open>The body of the loop, lines 76-162.\<close>

definition loopBody ::
  "Host \<Rightarrow> CarryForwardPluginSettings \<Rightarrow> CopyTypes \<Rightarrow> Editor \<Rightarrow> nat \<Rightarrow> LoopState \<Rightarrow>
   Exn + LoopState" where
  "loopBody host settings copy ed lineNumber st =
     (let minLine = pos_line (cursorFrom ed); maxLine = pos_line (cursorTo ed)
      in case getLine ed lineNumber of
           Inl e \<Rightarrow> Inl e
         | Inr line \<Rightarrow>
             (let copiedLine = copySlice settings (cursorFrom ed) (cursorTo ed) lineNumber line
              in if blankLineRegex line \<noteq> None \<and> \<not> (lineNumber = minLine \<and> minLine = maxLine)
                 then Inr (st\<lparr>copiedLines := copiedLines st @ [copiedLine],
                              updatedLines := updatedLines st @ [line]\<rparr>)
                 else
                   (case (if copy = SeparateLines \<or> lineNumber = minLine
                          then linkLine host settings copy line copiedLine st
                          else Inr (line, copiedLine, st)) of
                      Inl e \<Rightarrow> Inl e
                    | Inr (line', copiedLine', st') \<Rightarrow>
                        Inr (st'\<lparr>copiedLines :=
                                   (if \<not> ((copy = LinkOnly \<or> copy = LinkOnlyEmbed) \<and>
                                           lineNumber \<noteq> minLine)
                                    then copiedLines st' @ [copiedLine'] else copiedLines st'),
                                 updatedLines := updatedLines st' @ [line']\<rparr>))))"

text \<open>The loop of line 75, from \<open>lineNumber\<close> to the last line of the selection.\<close>

function copyLoop ::
  "Host \<Rightarrow> CarryForwardPluginSettings \<Rightarrow> CopyTypes \<Rightarrow> Editor \<Rightarrow> nat \<Rightarrow> LoopState \<Rightarrow>
   Exn + LoopState" where
  "copyLoop host settings copy ed lineNumber st =
     (if lineNumber \<le> pos_line (cursorTo ed) then
        (case loopBody host settings copy ed lineNumber st of
           Inl e \<Rightarrow> Inl e
         | Inr st' \<Rightarrow> copyLoop host settings copy ed (Suc lineNumber) st')
      else Inr st)"
  by pat_completeness auto
termination
  by (relation "measure (\<lambda>(host, settings, copy, ed, lineNumber, st).
        Suc (pos_line (cursorTo ed)) - lineNumber)") auto

text \<open>Lines 72-74: the two output lists and \<^verbatim>\<open>newID\<close> are empty when the loop starts.\<close>

definition initialLoopState :: LoopState where
  "initialLoopState = \<lparr>updatedLines = [], copiedLines = [], newID = [], draws = 0\<rparr>"

definition invalidNotice :: "jsstring \<Rightarrow> jsstring" where
  "invalidNotice validationString =
     js ''Error: '' @ [0x27] @ js ''From'' @ [0x27] @ js '' setting is invalid:'' @
     [0x0A, 0x0A] @ validationString @ [0x0A, 0x0A] @
     js ''Please update the Carry-Forward settings and try again.''"

definition copyForwardLines ::
  "Host \<Rightarrow> CarryForwardPluginSettings \<Rightarrow> CopyTypes \<Rightarrow> World \<Rightarrow> Outcome" where
  "copyForwardLines host settings copy w =
     (let regexValidation = validateRegex host (lineFormatFrom settings)
      in if valid regexValidation \<noteq> True
         then Returned (Notice (invalidNotice (string regexValidation)) (Some (1000 * 30)) w)
         else
           (let ed = editor w;
                minLine = pos_line (cursorFrom ed); maxLine = pos_line (cursorTo ed)
            in case copyLoop host settings copy ed minLine initialLoopState of
                 Inl e \<Rightarrow> Threw e w
               | Inr st \<Rightarrow>
                   (let w' = writeText host (join [0x0A] (copiedLines st)) w
                    in case getLine ed maxLine of
                         Inl e \<Rightarrow> Threw e w'
                       | Inr lastLine \<Rightarrow>
                           Returned (transaction minLine maxLine (join [0x0A] (updatedLines st))
                                       (cursorFrom ed) (cursorTo ed) w'))))"

section \<open>Notions used in the statements\<close>

text \<open>A line without its trailing whitespace.\<close>

definition withoutTrailingWhitespace :: "jsstring \<Rightarrow> jsstring" where
  "withoutTrailingWhitespace s = rev (dropWhile isSpace (rev s))"

text \<open>
  The updated line that the loop writes for a line to which it gives a new identifier:
  the line without its trailing whitespace, a space, a caret and five characters of
  \<open>characters\<close>.
\<close>

abbreviation mintedAnchor :: "jsstring \<Rightarrow> jsstring \<Rightarrow> bool" where
  "mintedAnchor line u \<equiv>
     (\<exists>ident. length ident = 5 \<and> set ident \<subseteq> set characters \<and>
        u = withoutTrailingWhitespace line @ js '' ^'' @ ident)"

text \<open>The condition of lines 94-97, under which a line is passed through as it is.\<close>

definition blankShortcut :: "Editor \<Rightarrow> nat \<Rightarrow> bool" where
  "blankShortcut ed n \<longleftrightarrow>
     blankLineRegex (lines ed ! n) \<noteq> None \<and>
     \<not> (n = pos_line (cursorFrom ed) \<and> pos_line (cursorFrom ed) = pos_line (cursorTo ed))"

subsection \<open>A host for the examples\<close>

text \<open>
  The default pattern \<^verbatim>\<open>/\s*$/u\<close>: the greedy \<^verbatim>\<open>\s*\<close> reaches the end of the string from
  position \<open>i\<close> exactly when everything from \<open>i\<close> on is whitespace.
\<close>

definition defaultFromRegex :: RegExp where
  "defaultFromRegex s = regexScan (trailingWhitespaceAttempt s) 0 (length s)"

text \<open>
  A host with a note called \<^verbatim>\<open>note\<close> that writes wiki links, whose \<^verbatim>\<open>RegExp\<close>
  constructor accepts the default pattern and rejects every other source (the examples
  use the default pattern and the unterminated class \<^verbatim>\<open>[abc\<close>), whose \<open>k\<close>-th random value
  selects the \<open>k\<close>-th character of \<open>characters\<close>, and whose clipboard accepts what is
  written.
\<close>

definition exampleHost :: Host where
  "exampleHost =
     \<lparr>generateMarkdownLink =
        (\<lambda>subpath alias.
           js ''[[note'' @ subpath @ (if alias = [] then [] else js ''|'' @ alias) @ js '']]''),
      newRegExp =
        (\<lambda>source. if source = 0x5C # js ''s*$'' then Inr defaultFromRegex
                   else Inl (js ''SyntaxError: Invalid regular expression'')),
      mathRandom = (\<lambda>k. k),
      clipboardOk = True\<rparr>"

definition exampleEditor :: "jsstring list \<Rightarrow> nat \<times> nat \<Rightarrow> nat \<times> nat \<Rightarrow> Editor" where
  "exampleEditor ls selFrom selTo =
     \<lparr>lines = ls,
      cursorFrom = \<lparr>pos_line = fst selFrom, pos_ch = snd selFrom\<rparr>,
      cursorTo = \<lparr>pos_line = fst selTo, pos_ch = snd selTo\<rparr>\<rparr>"

definition exampleWorld :: "jsstring list \<Rightarrow> nat \<times> nat \<Rightarrow> nat \<times> nat \<Rightarrow> World" where
  "exampleWorld ls selFrom selTo =
     \<lparr>editor = exampleEditor ls selFrom selTo, clipboard = [], notices = []\<rparr>"

section \<open>Auxiliary facts\<close>

declare copyLoop.simps [simp del]
declare genIDLoop.simps [simp del]

subsection \<open>The scan and the identifiers\<close>

text \<open>The scan returns the match at the first position where the pattern matches.\<close>

lemma regexScan_first:
  "attempt i = Some m \<Longrightarrow> i0 \<le> i \<Longrightarrow> i \<le> i0 + k \<Longrightarrow>
   (\<And>j. i0 \<le> j \<Longrightarrow> j < i \<Longrightarrow> attempt j = None) \<Longrightarrow> regexScan attempt i0 k = Some m"
proof (induction k arbitrary: i0)
  case 0
  then show ?case by simp
next
  case (Suc k)
  show ?case
  proof (cases "i = i0")
    case True
    with Suc.prems(1) show ?thesis by simp
  next
    case False
    with Suc.prems have "attempt i0 = None" and "Suc i0 \<le> i" and "i \<le> Suc i0 + k"
      by auto
    moreover have "regexScan attempt (Suc i0) k = Some m"
      using Suc.IH [of "Suc i0"] Suc.prems \<open>Suc i0 \<le> i\<close> \<open>i \<le> Suc i0 + k\<close> by simp
    ultimately show ?thesis by simp
  qed
qed

lemma regexScan_None:
  "(\<And>j. i0 \<le> j \<Longrightarrow> j \<le> i0 + k \<Longrightarrow> attempt j = None) \<Longrightarrow> regexScan attempt i0 k = None"
  by (induction k arbitrary: i0) auto

lemma genIDLoop_props:
  "genIDLoop rnd len pos ident = (ident', pos') \<Longrightarrow> length ident \<le> len \<Longrightarrow>
   length ident' = len \<and> pos' = pos + (len - length ident) \<and> set ident' \<subseteq> set ident \<union> set characters"
proof (induction rnd len pos ident rule: genIDLoop.induct)
  case (1 rnd len pos ident)
  show ?case
  proof (cases "length ident < len")
    case True
    have "0 < length characters"
      by (simp add: characters_def js_def)
    then have in_chars: "characters ! (rnd pos mod length characters) \<in> set characters"
      by (intro nth_mem) simp
    from True "1.prems" have
      "genIDLoop rnd len (Suc pos) (ident @ [characters ! (rnd pos mod length characters)]) = (ident', pos')"
      by (simp add: genIDLoop.simps [of rnd len pos ident])
    from "1.IH" [OF True this] True in_chars show ?thesis by auto
  next
    case False
    with "1.prems" show ?thesis
      by (simp add: genIDLoop.simps [of rnd len pos ident])
  qed
qed

lemma genID_props:
  assumes "genID rnd len pos = (ident, pos')"
  shows "length ident = len" and "pos' = pos + len" and "set ident \<subseteq> set characters"
proof -
  obtain i0 p0 where loop: "genIDLoop rnd len pos [] = (i0, p0)"
    by (cases "genIDLoop rnd len pos []")
  from genIDLoop_props [OF loop] have props: "length i0 = len" "p0 = pos + len" "set i0 \<subseteq> set characters"
    by auto
  from assms loop props(1) have "ident = i0" "pos' = p0"
    by (auto simp: genID_def slice_def)
  with props show "length ident = len" and "pos' = pos + len" and "set ident \<subseteq> set characters"
    by auto
qed

lemma characters_idchars: "list_all isIDChar characters"
  by code_simp

lemma characters_no_dollar: "0x24 \<notin> set characters"
  by code_simp

lemma getSubstitution_plain:
  "0x24 \<notin> set t \<Longrightarrow> getSubstitution m str p caps named t = t"
  by (induction t rule: induct_list012) auto

subsection \<open>Trailing whitespace and appended anchors\<close>

lemma split_trailing:
  "s = withoutTrailingWhitespace s @ rev (takeWhile isSpace (rev s))"
proof -
  have "rev (takeWhile isSpace (rev s) @ dropWhile isSpace (rev s)) = s"
    by (simp only: takeWhile_dropWhile_id rev_rev_ident)
  then show ?thesis
    by (simp only: withoutTrailingWhitespace_def rev_append)
qed

lemma withoutTrailingWhitespace_last:
  "withoutTrailingWhitespace s \<noteq> [] \<Longrightarrow> \<not> isSpace (last (withoutTrailingWhitespace s))"
  unfolding withoutTrailingWhitespace_def
  by (simp add: last_rev hd_dropWhile)

lemma trailingWhitespaceRegex_eq:
  "trailingWhitespaceRegex s =
     Some (simpleMatch (length (withoutTrailingWhitespace s)) (drop (length (withoutTrailingWhitespace s)) s))"
proof -
  define a where "a = withoutTrailingWhitespace s"
  define b where "b = rev (takeWhile isSpace (rev s))"
  have s: "s = a @ b" unfolding a_def b_def by (rule split_trailing)
  have b: "list_all isSpace b"
    unfolding b_def by (simp add: list_all_iff) (meson set_takeWhileD)
  have at: "trailingWhitespaceAttempt s (length a) = Some (simpleMatch (length a) (drop (length a) s))"
    using s b by (simp add: trailingWhitespaceAttempt_def)
  have before: "trailingWhitespaceAttempt s j = None" if "j < length a" for j
  proof -
    from that have ne: "a \<noteq> []" by auto
    then have "\<not> isSpace (last a)" unfolding a_def by (rule withoutTrailingWhitespace_last)
    moreover have "last a \<in> set (drop j a)"
      using that ne by (metis drop_eq_Nil last_drop last_in_set not_le)
    ultimately have "\<not> list_all isSpace (drop j s)"
      using s that by (auto simp: list_all_iff)
    then show ?thesis by (simp add: trailingWhitespaceAttempt_def)
  qed
  have "regexScan (trailingWhitespaceAttempt s) 0 (length s) = Some (simpleMatch (length a) (drop (length a) s))"
    by (rule regexScan_first [where i = "length a"]) (use s at before in auto)
  then show ?thesis by (simp add: trailingWhitespaceRegex_def a_def)
qed

lemma replace_trailingWhitespace:
  assumes "0x24 \<notin> set t"
  shows "replace s trailingWhitespaceRegex t = withoutTrailingWhitespace s @ t"
proof -
  have "take (length (withoutTrailingWhitespace s)) s = withoutTrailingWhitespace s"
    by (metis append_eq_conv_conj split_trailing)
  then show ?thesis
    using assms
    by (simp add: replace_def trailingWhitespaceRegex_eq simpleMatch_def getSubstitution_plain)
qed

lemma blockIDRegex_appended:
  assumes "ident \<noteq> []" and "list_all isIDChar ident"
  shows "blockIDRegex (a @ 0x20 # 0x5E # ident) = Some (simpleMatch (Suc (length a)) (0x5E # ident))"
proof -
  let ?s = "a @ 0x20 # 0x5E # ident"
  have nsp: "\<not> isIDChar 0x20" by (simp add: isIDChar_def)
  have at: "blockIDAttempt ?s (Suc (length a)) = Some (simpleMatch (Suc (length a)) (0x5E # ident))"
    using assms by (simp add: blockIDAttempt_def nth_append isSpace_def)
  have before: "blockIDAttempt ?s j = None" if "j < Suc (length a)" for j
  proof (cases "j = length a")
    case True
    then show ?thesis by (simp add: blockIDAttempt_def nth_append)
  next
    case False
    with that have "Suc j \<le> length a" by simp
    then have "0x20 \<in> set (drop (Suc j) ?s)" by simp
    with nsp have "\<not> list_all isIDChar (drop (Suc j) ?s)"
      by (auto simp: list_all_iff)
    then show ?thesis by (simp add: blockIDAttempt_def)
  qed
  have "regexScan (blockIDAttempt ?s) 0 (length ?s) = Some (simpleMatch (Suc (length a)) (0x5E # ident))"
    by (rule regexScan_first [where i = "Suc (length a)"]) (use at before in auto)
  then show ?thesis by (simp add: blockIDRegex_def)
qed



subsection \<open>The link step\<close>

lemma js_space_caret: "js '' ^'' = [0x20, 0x5E]" and js_caret: "js ''^'' = [0x5E]"
  and js_space: "js '' '' = [0x20]"
  by (simp_all add: js_def)

lemma genID_no_dollar:
  assumes "genID rnd len pos = (ident, pos')"
  shows "0x24 \<notin> set ident"
  using genID_props(3) [OF assms] characters_no_dollar by auto

lemma linkLine_minted:
  assumes "linkLine host settings copy line copiedLine st = Inr (line', copiedLine', st')"
    and "blockIDRegex line = None"
  shows "line' = withoutTrailingWhitespace line @ js '' ^'' @ fst (genID (mathRandom host) 5 (draws st))"
    and "draws st' = draws st + 5"
    and "newID st' = js ''^'' @ fst (genID (mathRandom host) 5 (draws st))"
    and "updatedLines st' = updatedLines st" and "copiedLines st' = copiedLines st"
proof -
  obtain ident pos where g: "genID (mathRandom host) 5 (draws st) = (ident, pos)"
    by (cases "genID (mathRandom host) 5 (draws st)")
  have nd: "0x24 \<notin> set (js '' '' @ js ''^'' @ ident)"
    using genID_no_dollar [OF g] by (simp add: js_space js_caret)
  have pos: "pos = draws st + 5" using genID_props(2) [OF g] .
  have line': "line' = replace line trailingWhitespaceRegex (js '' '' @ js ''^'' @ ident)"
    and st': "st' = st\<lparr>newID := js ''^'' @ ident, draws := pos\<rparr>"
    using assms g by (auto simp: linkLine_def Let_def split: if_splits sum.splits)
  show "line' = withoutTrailingWhitespace line @ js '' ^'' @ fst (genID (mathRandom host) 5 (draws st))"
    using line' replace_trailingWhitespace [OF nd] g by (simp add: js_space js_caret js_space_caret)
  show "draws st' = draws st + 5" using st' pos by simp
  show "newID st' = js ''^'' @ fst (genID (mathRandom host) 5 (draws st))" using st' g by simp
  show "updatedLines st' = updatedLines st" using st' by simp
  show "copiedLines st' = copiedLines st" using st' by simp
qed

lemma linkLine_reused:
  assumes "linkLine host settings copy line copiedLine st = Inr (line', copiedLine', st')"
    and "blockIDRegex line = Some m"
  shows "line' = line" and "st' = st"
  using assms by (auto simp: linkLine_def Let_def split: if_splits sum.splits)

lemma linkLine_line:
  assumes "linkLine host settings copy line copiedLine st = Inr (line', copiedLine', st')"
  shows "line' = line \<or> mintedAnchor line line'"
    and "updatedLines st' = updatedLines st" and "copiedLines st' = copiedLines st"
proof -
  show "line' = line \<or> mintedAnchor line line'"
  proof (cases "blockIDRegex line")
    case None
    obtain ident pos where g: "genID (mathRandom host) 5 (draws st) = (ident, pos)"
      by (cases "genID (mathRandom host) 5 (draws st)")
    from linkLine_minted(1) [OF assms None] g genID_props [OF g]
    have "mintedAnchor line line'" by auto
    then show ?thesis ..
  next
    case (Some m)
    from linkLine_reused(1) [OF assms Some] show ?thesis ..
  qed
  show "updatedLines st' = updatedLines st" and "copiedLines st' = copiedLines st"
    using assms linkLine_minted(4,5) [OF assms] linkLine_reused(2) [OF assms]
    by (cases "blockIDRegex line"; simp)+
qed

lemma linkLine_total:
  assumes "copy = LinkOnly \<or> copy = LinkOnlyEmbed \<or> (\<exists>re. newRegExp host (lineFormatFrom settings) = Inr re)"
  shows "linkLine host settings copy line copiedLine st \<noteq> Inl e"
  using assms
  by (auto simp: linkLine_def Let_def split: option.splits prod.splits)

subsection \<open>The loop body\<close>

text \<open>The four ways through the body: no such line, a blank line, a line that is copied
  as it is, and a line that gets a link.\<close>

lemma loopBody_range:
  "\<not> n < length (lines ed) \<Longrightarrow> loopBody host settings copy ed n st = Inl (RangeError n)"
  by (simp add: loopBody_def getLine_def)

lemma loopBody_blank:
  "n < length (lines ed) \<Longrightarrow> blankShortcut ed n \<Longrightarrow>
   loopBody host settings copy ed n st =
     Inr (st\<lparr>copiedLines := copiedLines st @ [copySlice settings (cursorFrom ed) (cursorTo ed) n (lines ed ! n)],
             updatedLines := updatedLines st @ [lines ed ! n]\<rparr>)"
  unfolding loopBody_def getLine_def blankShortcut_def Let_def by simp

lemma loopBody_plain:
  "n < length (lines ed) \<Longrightarrow> \<not> blankShortcut ed n \<Longrightarrow>
   \<not> (copy = SeparateLines \<or> n = pos_line (cursorFrom ed)) \<Longrightarrow>
   loopBody host settings copy ed n st =
     Inr (st\<lparr>copiedLines :=
               (if copy = CombinedLines
                then copiedLines st @ [copySlice settings (cursorFrom ed) (cursorTo ed) n (lines ed ! n)]
                else copiedLines st),
             updatedLines := updatedLines st @ [lines ed ! n]\<rparr>)"
  unfolding loopBody_def getLine_def blankShortcut_def Let_def
  by (cases copy) auto

lemma loopBody_link:
  "n < length (lines ed) \<Longrightarrow> \<not> blankShortcut ed n \<Longrightarrow>
   copy = SeparateLines \<or> n = pos_line (cursorFrom ed) \<Longrightarrow>
   loopBody host settings copy ed n st =
     (case linkLine host settings copy (lines ed ! n)
             (copySlice settings (cursorFrom ed) (cursorTo ed) n (lines ed ! n)) st of
        Inl e \<Rightarrow> Inl e
      | Inr (line', copiedLine', st') \<Rightarrow>
          Inr (st'\<lparr>copiedLines := copiedLines st' @ [copiedLine'],
                   updatedLines := updatedLines st' @ [line']\<rparr>))"
  unfolding loopBody_def getLine_def blankShortcut_def Let_def
  by (cases copy) (auto split: sum.splits)



lemma loopBody_total:
  assumes "n < length (lines ed)"
    and "copy = LinkOnly \<or> copy = LinkOnlyEmbed \<or> (\<exists>re. newRegExp host (lineFormatFrom settings) = Inr re)"
  shows "\<exists>st'. loopBody host settings copy ed n st = Inr st'"
proof (cases "blankShortcut ed n")
  case True
  from loopBody_blank [OF assms(1) True] show ?thesis by blast
next
  case False
  show ?thesis
  proof (cases "copy = SeparateLines \<or> n = pos_line (cursorFrom ed)")
    case link: True
    let ?r = "linkLine host settings copy (lines ed ! n)
             (copySlice settings (cursorFrom ed) (cursorTo ed) n (lines ed ! n)) st"
    obtain line' copiedLine' st1 where "?r = Inr (line', copiedLine', st1)"
      using linkLine_total [OF assms(2), of "lines ed ! n" _ st]
      by (cases ?r) auto
    then show ?thesis
      by (simp add: loopBody_link [OF assms(1) False link])
  next
    case plain: False
    from loopBody_plain [OF assms(1) False plain] show ?thesis by blast
  qed
qed

lemma loopBody_step:
  assumes "loopBody host settings copy ed n st = Inr st'"
  shows "n < length (lines ed)"
    and "\<exists>u. updatedLines st' = updatedLines st @ [u] \<and> (u = lines ed ! n \<or> mintedAnchor (lines ed ! n) u)"
    and "copiedLines st' = copiedLines st \<or> (\<exists>c. copiedLines st' = copiedLines st @ [c])"
    and "copy = SeparateLines \<or> copy = CombinedLines \<Longrightarrow> \<exists>c. copiedLines st' = copiedLines st @ [c]"
proof -
  show inrange: "n < length (lines ed)"
    using assms loopBody_range [of n ed host settings copy st] by (cases "n < length (lines ed)") auto
  let ?line = "lines ed ! n"
  let ?slice = "copySlice settings (cursorFrom ed) (cursorTo ed) n ?line"
  have all: "(\<exists>u. updatedLines st' = updatedLines st @ [u] \<and> (u = ?line \<or> mintedAnchor ?line u)) \<and>
       (copiedLines st' = copiedLines st \<or> (\<exists>c. copiedLines st' = copiedLines st @ [c])) \<and>
       (copy = SeparateLines \<or> copy = CombinedLines \<longrightarrow> (\<exists>c. copiedLines st' = copiedLines st @ [c]))"
  proof (cases "blankShortcut ed n")
    case True
    from assms loopBody_blank [OF inrange True, of host settings copy st]
    have "st' = st\<lparr>copiedLines := copiedLines st @ [?slice], updatedLines := updatedLines st @ [?line]\<rparr>"
      by simp
    then show ?thesis by simp
  next
    case False
    show ?thesis
    proof (cases "copy = SeparateLines \<or> n = pos_line (cursorFrom ed)")
      case link: True
      obtain line' copiedLine' st1 where
        ll: "linkLine host settings copy ?line ?slice st = Inr (line', copiedLine', st1)"
        and st': "st' = st1\<lparr>copiedLines := copiedLines st1 @ [copiedLine'],
                 updatedLines := updatedLines st1 @ [line']\<rparr>"
        using assms unfolding loopBody_link [OF inrange False link]
        by (cases "linkLine host settings copy ?line ?slice st") auto
      have "updatedLines st' = updatedLines st @ [line']" "copiedLines st' = copiedLines st @ [copiedLine']"
        using linkLine_line(2,3) [OF ll] st' by simp_all
      with linkLine_line(1) [OF ll] show ?thesis by blast
    next
      case plain: False
      from assms loopBody_plain [OF inrange False plain, of host settings st]
      have "st' = st\<lparr>copiedLines :=
               (if copy = CombinedLines then copiedLines st @ [?slice] else copiedLines st),
             updatedLines := updatedLines st @ [?line]\<rparr>"
        by simp
      moreover from plain have "copy \<noteq> SeparateLines" by simp
      ultimately show ?thesis by simp
    qed
  qed
  from all show "\<exists>u. updatedLines st' = updatedLines st @ [u] \<and> (u = lines ed ! n \<or> mintedAnchor (lines ed ! n) u)"
    by (rule conjunct1)
  from all show "copiedLines st' = copiedLines st \<or> (\<exists>c. copiedLines st' = copiedLines st @ [c])"
    by simp
  from all show "copy = SeparateLines \<or> copy = CombinedLines \<Longrightarrow> \<exists>c. copiedLines st' = copiedLines st @ [c]"
    by simp
qed

subsection \<open>The loop\<close>

lemma copyLoop_total:
  assumes "\<And>m. n \<le> m \<Longrightarrow> m \<le> pos_line (cursorTo ed) \<Longrightarrow> m < length (lines ed)"
    and "copy = LinkOnly \<or> copy = LinkOnlyEmbed \<or> (\<exists>re. newRegExp host (lineFormatFrom settings) = Inr re)"
  shows "\<exists>st'. copyLoop host settings copy ed n st = Inr st'"
  using assms
proof (induction host settings copy ed n st rule: copyLoop.induct)
  case (1 host settings copy ed lineNumber st)
  show ?case
  proof (cases "lineNumber \<le> pos_line (cursorTo ed)")
    case True
    then have "lineNumber < length (lines ed)" using "1.prems"(1) by simp
    from loopBody_total [OF this "1.prems"(2)] obtain st1 where
      body: "loopBody host settings copy ed lineNumber st = Inr st1" by blast
    have "\<exists>st'. copyLoop host settings copy ed (Suc lineNumber) st1 = Inr st'"
      using "1.IH" [OF True body] "1.prems" by simp
    with True body show ?thesis
      by (simp add: copyLoop.simps [of host settings copy ed lineNumber st])
  next
    case False
    then show ?thesis
      by (simp add: copyLoop.simps [of host settings copy ed lineNumber st])
  qed
qed



lemma copyLoop_unfold_step:
  assumes "copyLoop host settings copy ed n st0 = Inr st" and "n \<le> pos_line (cursorTo ed)"
  obtains st1 where "loopBody host settings copy ed n st0 = Inr st1"
    and "copyLoop host settings copy ed (Suc n) st1 = Inr st"
  using assms
  by (cases "loopBody host settings copy ed n st0")
     (simp_all add: copyLoop.simps [of host settings copy ed n st0])

lemma copyLoop_unfold_stop:
  assumes "copyLoop host settings copy ed n st0 = Inr st" and "\<not> n \<le> pos_line (cursorTo ed)"
  shows "st = st0"
  using assms by (simp add: copyLoop.simps [of host settings copy ed n st0])

lemma copyLoop_prefix:
  assumes "copyLoop host settings copy ed n st0 = Inr st"
  shows "prefix (updatedLines st0) (updatedLines st) \<and> prefix (copiedLines st0) (copiedLines st)"
  using assms
proof (induction host settings copy ed n st0 rule: copyLoop.induct)
  case (1 host settings copy ed lineNumber st0)
  show ?case
  proof (cases "lineNumber \<le> pos_line (cursorTo ed)")
    case False
    from copyLoop_unfold_stop [OF "1.prems" False] show ?thesis by simp
  next
    case True
    from copyLoop_unfold_step [OF "1.prems" True] obtain st1 where
      body: "loopBody host settings copy ed lineNumber st0 = Inr st1"
      and rest: "copyLoop host settings copy ed (Suc lineNumber) st1 = Inr st"
      by blast
    from "1.IH" [OF True body rest] have
      IH: "prefix (updatedLines st1) (updatedLines st)" "prefix (copiedLines st1) (copiedLines st)"
      by simp_all
    from loopBody_step(2) [OF body] have "prefix (updatedLines st0) (updatedLines st1)"
      by auto
    moreover from loopBody_step(3) [OF body] have "prefix (copiedLines st0) (copiedLines st1)"
      by auto
    ultimately show ?thesis
      using IH prefix_order.trans by blast
  qed
qed

lemma copyLoop_length:
  assumes "copyLoop host settings copy ed n st0 = Inr st" and "n \<le> Suc (pos_line (cursorTo ed))"
  shows "length (updatedLines st) = length (updatedLines st0) + (Suc (pos_line (cursorTo ed)) - n)"
    and "copy = SeparateLines \<or> copy = CombinedLines \<Longrightarrow>
         length (copiedLines st) = length (copiedLines st0) + (Suc (pos_line (cursorTo ed)) - n)"
proof -
  have "length (updatedLines st) = length (updatedLines st0) + (Suc (pos_line (cursorTo ed)) - n) \<and>
     (copy = SeparateLines \<or> copy = CombinedLines \<longrightarrow>
         length (copiedLines st) = length (copiedLines st0) + (Suc (pos_line (cursorTo ed)) - n))"
    using assms
  proof (induction host settings copy ed n st0 rule: copyLoop.induct)
    case (1 host settings copy ed lineNumber st0)
    show ?case
    proof (cases "lineNumber \<le> pos_line (cursorTo ed)")
      case False
      from copyLoop_unfold_stop [OF "1.prems"(1) False] False "1.prems"(2) show ?thesis by simp
    next
      case True
      from copyLoop_unfold_step [OF "1.prems"(1) True] obtain st1 where
        body: "loopBody host settings copy ed lineNumber st0 = Inr st1"
        and rest: "copyLoop host settings copy ed (Suc lineNumber) st1 = Inr st"
        by blast
      from True have le: "Suc lineNumber \<le> Suc (pos_line (cursorTo ed))" by simp
      note IH = "1.IH" [OF True body rest le]
      from loopBody_step(2) [OF body] have u: "length (updatedLines st1) = Suc (length (updatedLines st0))"
        by auto
      have c: "length (copiedLines st1) = Suc (length (copiedLines st0))"
        if "copy = SeparateLines \<or> copy = CombinedLines"
        using loopBody_step(4) [OF body that] by auto
      from IH u True have "length (updatedLines st) =
          length (updatedLines st0) + (Suc (pos_line (cursorTo ed)) - lineNumber)"
        by simp
      moreover have "length (copiedLines st) =
          length (copiedLines st0) + (Suc (pos_line (cursorTo ed)) - lineNumber)"
        if "copy = SeparateLines \<or> copy = CombinedLines"
        using IH c [OF that] that True by simp
      ultimately show ?thesis by simp
    qed
  qed
  then show "length (updatedLines st) = length (updatedLines st0) + (Suc (pos_line (cursorTo ed)) - n)"
    and "copy = SeparateLines \<or> copy = CombinedLines \<Longrightarrow>
         length (copiedLines st) = length (copiedLines st0) + (Suc (pos_line (cursorTo ed)) - n)"
    by simp_all
qed

text \<open>Every line of the selection is processed by the loop body, from a state that holds
  the output for the lines before it, and what the body appends stays in the result.\<close>

lemma copyLoop_trace:
  assumes "copyLoop host settings copy ed n st0 = Inr st"
    and "n \<le> m" and "m \<le> pos_line (cursorTo ed)"
  shows "\<exists>a b. loopBody host settings copy ed m a = Inr b \<and>
          length (updatedLines a) = length (updatedLines st0) + (m - n) \<and>
          (copy = SeparateLines \<or> copy = CombinedLines \<longrightarrow>
             length (copiedLines a) = length (copiedLines st0) + (m - n)) \<and>
          prefix (updatedLines b) (updatedLines st) \<and> prefix (copiedLines b) (copiedLines st)"
  using assms
proof (induction host settings copy ed n st0 rule: copyLoop.induct)
  case (1 host settings copy ed lineNumber st0)
  from "1.prems"(2,3) have True: "lineNumber \<le> pos_line (cursorTo ed)" by simp
  from copyLoop_unfold_step [OF "1.prems"(1) True] obtain st1 where
    body: "loopBody host settings copy ed lineNumber st0 = Inr st1"
    and rest: "copyLoop host settings copy ed (Suc lineNumber) st1 = Inr st"
    by blast
  show ?case
  proof (cases "m = lineNumber")
    case same: True
    from copyLoop_prefix [OF rest] have
      "prefix (updatedLines st1) (updatedLines st)" "prefix (copiedLines st1) (copiedLines st)"
      by simp_all
    with body same show ?thesis
      by (intro exI [of _ st0] exI [of _ st1]) simp
  next
    case False
    with "1.prems"(2) have m': "Suc lineNumber \<le> m" by simp
    from "1.IH" [OF True body rest m' "1.prems"(3)] obtain a b where
      ab: "loopBody host settings copy ed m a = Inr b"
        "length (updatedLines a) = length (updatedLines st1) + (m - Suc lineNumber)"
        "copy = SeparateLines \<or> copy = CombinedLines \<longrightarrow>
           length (copiedLines a) = length (copiedLines st1) + (m - Suc lineNumber)"
        "prefix (updatedLines b) (updatedLines st)" "prefix (copiedLines b) (copiedLines st)"
      by blast
    from loopBody_step(2) [OF body] have u: "length (updatedLines st1) = Suc (length (updatedLines st0))"
      by auto
    have c: "length (copiedLines st1) = Suc (length (copiedLines st0))"
      if "copy = SeparateLines \<or> copy = CombinedLines"
      using loopBody_step(4) [OF body that] by auto
    have "length (updatedLines a) = length (updatedLines st0) + (m - lineNumber)"
      using ab(2) u m' by simp
    moreover have "copy = SeparateLines \<or> copy = CombinedLines \<longrightarrow>
           length (copiedLines a) = length (copiedLines st0) + (m - lineNumber)"
      using ab(3) c m' by auto
    ultimately show ?thesis
      using ab(1,4,5) by (intro exI [of _ a] exI [of _ b]) simp
  qed
qed

subsection \<open>Lines that end with an anchor token\<close>

lemma regexScan_Some:
  "regexScan attempt i0 k = Some m \<Longrightarrow> \<exists>i. i0 \<le> i \<and> i \<le> i0 + k \<and> attempt i = Some m"
proof (induction k arbitrary: i0)
  case 0
  then show ?case by auto
next
  case (Suc k)
  show ?case
  proof (cases "attempt i0")
    case None
    with Suc.prems have "regexScan attempt (Suc i0) k = Some m" by simp
    from Suc.IH [OF this] obtain i where "Suc i0 \<le> i" "i \<le> Suc i0 + k" "attempt i = Some m"
      by blast
    then show ?thesis by (intro exI [of _ i]) simp
  next
    case (Some a)
    with Suc.prems show ?thesis by (intro exI [of _ i0]) simp
  qed
qed

lemma blockIDRegex_SomeD:
  assumes "blockIDRegex s = Some m"
  obtains i where "0 < i" and "i < length s"
    and "isSpace (s ! (i - 1)) \<or> s ! (i - 1) = 0x5E" and "s ! i = 0x5E"
    and "drop (Suc i) s \<noteq> []" and "list_all isIDChar (drop (Suc i) s)"
    and "m = simpleMatch i (drop i s)"
proof -
  from assms obtain i where "blockIDAttempt s i = Some m"
    unfolding blockIDRegex_def by (blast dest: regexScan_Some)
  then have "0 < i \<and> i < length s \<and> (isSpace (s ! (i - 1)) \<or> s ! (i - 1) = 0x5E) \<and> s ! i = 0x5E \<and>
      drop (Suc i) s \<noteq> [] \<and> list_all isIDChar (drop (Suc i) s) \<and> m = simpleMatch i (drop i s)"
    unfolding blockIDAttempt_def by (simp split: if_splits)
  with that show thesis by blast
qed

lemma idchar_not_space: "isIDChar c \<Longrightarrow> \<not> isSpace c"
  unfolding isIDChar_def isSpace_def word_le_nat_alt by auto

lemma idchar_not_caret: "isIDChar c \<Longrightarrow> c \<noteq> 0x5E"
  unfolding isIDChar_def by auto

lemma anchored_not_blank:
  assumes "blockIDRegex s = Some m"
  shows "blankLineRegex s = None"
proof -
  from assms obtain i where "i < length s" and "s ! i = 0x5E"
    by (rule blockIDRegex_SomeD)
  then have "0x5E \<in> set s" by (metis nth_mem)
  moreover have "\<not> isSpace 0x5E" by (simp add: isSpace_def)
  ultimately have "\<not> list_all isSpace s" by (auto simp: list_all_iff)
  then show ?thesis by (simp add: blankLineRegex_def)
qed

lemma replace_blockID:
  assumes "blockIDRegex s = Some m"
  shows "replace s blockIDRegex [] = take (index m) s"
proof -
  from assms obtain i where "i < length s" and "m = simpleMatch i (drop i s)"
    by (rule blockIDRegex_SomeD)
  then show ?thesis
    using assms by (simp add: replace_def simpleMatch_def)
qed

lemma blockIDRegex_cut:
  assumes "blockIDRegex s = Some m"
  shows "blockIDRegex (take (index m) s) = None"
proof -
  from assms obtain i where i: "0 < i" "i < length s"
    "isSpace (s ! (i - 1)) \<or> s ! (i - 1) = 0x5E" "m = simpleMatch i (drop i s)"
    by (rule blockIDRegex_SomeD)
  let ?t = "take i s"
  have len: "length ?t = i" using i(2) by simp
  have "?t \<noteq> []" using i(1,2) by auto
  then have "last ?t = ?t ! (length ?t - 1)" by (rule last_conv_nth)
  then have lastt: "last ?t = s ! (i - 1)"
    using i(1) len by simp
  have notid: "\<not> isIDChar (last ?t)"
    using i(3) lastt idchar_not_space [of "last ?t"] idchar_not_caret [of "last ?t"] by auto
  have "blockIDAttempt ?t j = None" for j
  proof (cases "drop (Suc j) ?t = []")
    case True
    then show ?thesis by (simp add: blockIDAttempt_def)
  next
    case False
    then have "Suc j < length ?t" by (simp del: length_take)
    then have "last (drop (Suc j) ?t) = last ?t" by (rule last_drop)
    with False have "last ?t \<in> set (drop (Suc j) ?t)" by (metis last_in_set)
    with notid have "\<not> list_all isIDChar (drop (Suc j) ?t)" by (auto simp: list_all_iff)
    then show ?thesis by (simp add: blockIDAttempt_def)
  qed
  then have "regexScan (blockIDAttempt ?t) 0 (length ?t) = None"
    by (intro regexScan_None)
  then show ?thesis using i(4) by (simp add: blockIDRegex_def simpleMatch_def)
qed

lemma characters_list_all: "set ident \<subseteq> set characters \<Longrightarrow> list_all isIDChar ident"
  using characters_idchars by (auto simp: list_all_iff)

subsection \<open>Reading the outputs\<close>

lemma prefix_snoc_nth:
  assumes "prefix (xs @ [x]) ys"
  shows "ys ! length xs = x" and "x \<in> set ys" and "take (length xs) ys = xs"
    and "take (Suc (length xs)) ys = xs @ [x]"
proof -
  from assms obtain zs where ys: "ys = (xs @ [x]) @ zs" by (rule prefixE)
  then show "ys ! length xs = x" by (simp add: nth_append)
  from ys show "x \<in> set ys" by simp
  from ys show "take (length xs) ys = xs" by simp
  from ys show "take (Suc (length xs)) ys = xs @ [x]" by simp
qed

lemma copySlice_interior:
  "n \<noteq> pos_line selFrom \<Longrightarrow> n \<noteq> pos_line selTo \<Longrightarrow> copySlice settings selFrom selTo n line = line"
  by (simp add: copySlice_def)

lemma initialLoopState_simps:
  "updatedLines initialLoopState = []" "copiedLines initialLoopState = []"
  "newID initialLoopState = []" "draws initialLoopState = 0"
  by (simp_all add: initialLoopState_def)

subsection \<open>The validated pattern, the scan, the run of the command\<close>

lemma replaceEscape_plain: "0x5C \<notin> set s \<Longrightarrow> replaceEscape l r s = s"
  by (induction l r s rule: replaceEscape.induct) auto

lemma updatedRegexString_plain: "0x5C \<notin> set s \<Longrightarrow> updatedRegexString s = s"
  by (simp add: updatedRegexString_def replaceEscape_plain)

lemma regexScan_NoneD:
  "regexScan attempt i0 k = None \<Longrightarrow> i0 \<le> j \<Longrightarrow> j \<le> i0 + k \<Longrightarrow> attempt j = None"
proof (induction k arbitrary: i0)
  case 0
  then show ?case by simp
next
  case (Suc k)
  show ?case
  proof (cases "j = i0")
    case True
    with Suc.prems(1) show ?thesis by (simp split: option.splits)
  next
    case False
    with Suc.prems have "regexScan attempt (Suc i0) k = None" "Suc i0 \<le> j" "j \<le> Suc i0 + k"
      by (simp_all split: option.splits)
    then show ?thesis by (rule Suc.IH)
  qed
qed

lemma slice_from_zero: "slice s 0 (int k) = take k s"
  by (simp add: slice_def Let_def min_def)

lemma copyForwardLines_run:
  assumes "newRegExp host (updatedRegexString (lineFormatFrom settings)) = Inr re"
    and "copyLoop host settings copy (editor w) (pos_line (cursorFrom (editor w))) initialLoopState = Inr st"
    and "pos_line (cursorTo (editor w)) < length (lines (editor w))"
  shows "copyForwardLines host settings copy w =
           Returned (transaction (pos_line (cursorFrom (editor w))) (pos_line (cursorTo (editor w)))
                       (join [0x0A] (updatedLines st)) (cursorFrom (editor w)) (cursorTo (editor w))
                       (writeText host (join [0x0A] (copiedLines st)) w))"
  using assms
  by (simp add: copyForwardLines_def validateRegex_def Let_def getLine_def)

subsection \<open>The placeholder\<close>

lemma js_open: "js ''{{LINK'' = [0x7B, 0x7B, 0x4C, 0x49, 0x4E, 0x4B]"
  and js_close: "js ''}}'' = [0x7D, 0x7D]"
  and js_brackets: "js '']]'' = [0x5D, 0x5D]"
  and js_dollar1: "js ''$1]]'' = [0x24, 0x31, 0x5D, 0x5D]"
  by (simp_all add: js_def)

lemma js_lengths: "length (js ''{{LINK'') = 6" "length (js ''}}'') = 2" "length (js '']]'') = 2"
  by (simp_all add: js_def)

lemma findClose_last:
  "take 2 (drop k0 rest) = js ''}}'' \<Longrightarrow> k0 \<le> k \<Longrightarrow>
   (\<And>j. k0 < j \<Longrightarrow> j \<le> k \<Longrightarrow> take 2 (drop j rest) \<noteq> js ''}}'') \<Longrightarrow>
   findClose rest k = Some k0"
proof (induction k)
  case 0
  then show ?case by simp
next
  case (Suc k)
  show ?case
  proof (cases "k0 = Suc k")
    case True
    with Suc.prems(1) show ?thesis by simp
  next
    case False
    with Suc.prems(2) have le: "k0 \<le> k" and lt: "k0 < Suc k" by simp_all
    from Suc.prems(3) [OF lt] have "take 2 (drop (Suc k) rest) \<noteq> js ''}}''" by simp
    moreover have "findClose rest k = Some k0"
      using Suc.IH [OF Suc.prems(1) le] Suc.prems(3) by simp
    ultimately show ?thesis by simp
  qed
qed

lemma getSubstitution_prefix:
  "0x24 \<notin> set l \<Longrightarrow>
   getSubstitution m str p caps named (l @ r) = l @ getSubstitution m str p caps named r"
proof (induction l)
  case Nil
  then show ?case by simp
next
  case (Cons c l)
  then have c: "c \<noteq> 0x24" and IH: "getSubstitution m str p caps named (l @ r) =
      l @ getSubstitution m str p caps named r"
    by simp_all
  show ?case
  proof (cases "l @ r")
    case Nil
    then show ?thesis by simp
  next
    case (Cons d rest)
    with c IH show ?thesis by simp
  qed
qed

lemma getSubstitution_dollar1:
  "getSubstitution m str p [Some suf] None (js ''$1]]'') = suf @ js '']]''"
  by (simp add: js_dollar1 js_brackets isDigit_def digitValue_def captureText_def)

lemma closeBracketsRegex_end:
  "closeBracketsRegex (base @ js '']]'') = Some (simpleMatch (length base) (js '']]''))"
proof -
  let ?s = "base @ js '']]''"
  have at: "closeBracketsAttempt ?s (length base) = Some (simpleMatch (length base) (js '']]''))"
    by (simp add: closeBracketsAttempt_def)
  have before: "closeBracketsAttempt ?s j = None" if "j < length base" for j
  proof -
    from that have "length (drop j ?s) > length (js '']]'')" by (simp add: js_brackets)
    then have "drop j ?s \<noteq> js '']]''" by auto
    then show ?thesis by (simp add: closeBracketsAttempt_def)
  qed
  have "regexScan (closeBracketsAttempt ?s) 0 (length ?s) =
      Some (simpleMatch (length base) (js '']]''))"
    by (rule regexScan_first [where i = "length base"]) (use at before in auto)
  then show ?thesis by (simp add: closeBracketsRegex_def)
qed

lemma replace_closeBrackets: "replace (base @ js '']]'') closeBracketsRegex [] = base"
  unfolding replace_def closeBracketsRegex_end
  by (simp add: simpleMatch_def js_lengths)

lemma placeholderRegex_found:
  assumes pre: "0x7B \<notin> set pre"
    and suf: "\<forall>c \<in> set suf. \<not> isLineTerminator c"
    and post: "0x7D \<notin> set post"
  shows "placeholderRegex (pre @ js ''{{LINK'' @ suf @ js ''}}'' @ post) =
     Some \<lparr>index = length pre, matched = js ''{{LINK'' @ suf @ js ''}}'',
           captures = [Some suf], groups = None\<rparr>"
proof -
  let ?t = "pre @ js ''{{LINK'' @ suf @ js ''}}'' @ post"
  let ?rest = "suf @ js ''}}'' @ post"
  let ?run = "takeWhile (\<lambda>c. \<not> isLineTerminator c) ?rest"
  have len6: "length (js ''{{LINK'') = 6" by (simp add: js_open)
  have rest: "drop (length pre + 6) ?t = ?rest" by (simp add: js_open)
  have run: "?run = suf @ js ''}}'' @ takeWhile (\<lambda>c. \<not> isLineTerminator c) post"
    using suf by (simp add: takeWhile_append2 js_close isLineTerminator_def)
  then have runlen: "length suf \<le> length ?run" by simp
  have here: "take 2 (drop (length suf) ?rest) = js ''}}''"
    by (simp add: js_close)
  have later: "take 2 (drop j ?rest) \<noteq> js ''}}''" if "length suf < j" for j
  proof (cases "j = Suc (length suf)")
    case True
    then have "drop j ?rest = 0x7D # post" by (simp add: js_close)
    with post show ?thesis by (cases post) (auto simp: js_close)
  next
    case False
    define d where "d = j - (length suf + 2)"
    with False that have "j = length suf + 2 + d" by simp
    then have "drop j ?rest = drop d post" by (simp add: js_close)
    moreover have "take 2 (drop d post) \<noteq> js ''}}''"
    proof
      assume "take 2 (drop d post) = js ''}}''"
      then have "0x7D \<in> set (take 2 (drop d post))" by (simp add: js_close)
      then have "0x7D \<in> set post" by (meson in_set_dropD in_set_takeD)
      with post show False by contradiction
    qed
    ultimately show ?thesis by simp
  qed
  have fc: "findClose ?rest (length ?run) = Some (length suf)"
    by (rule findClose_last [OF here runlen]) (use later in blast)
  have t6: "take 6 (drop (length pre) ?t) = js ''{{LINK''"
    by (simp add: js_lengths)
  have mt: "take (6 + length suf + 2) (drop (length pre) ?t) = js ''{{LINK'' @ suf @ js ''}}''"
    by (simp add: js_lengths)
  have cap: "take (length suf) ?rest = suf"
    by simp
  have "placeholderAttempt ?t (length pre) =
      Some \<lparr>index = length pre, matched = take (6 + length suf + 2) (drop (length pre) ?t),
           captures = [Some (take (length suf) ?rest)], groups = None\<rparr>"
    unfolding placeholderAttempt_def t6 rest Let_def fc by (simp only: simp_thms if_True option.case)
  then have at: "placeholderAttempt ?t (length pre) =
      Some \<lparr>index = length pre, matched = js ''{{LINK'' @ suf @ js ''}}'',
           captures = [Some suf], groups = None\<rparr>"
    by (simp only: mt cap)
  have before: "placeholderAttempt ?t j = None" if "j < length pre" for j
  proof -
    from that have "hd (drop j ?t) = pre ! j"
      by (simp add: hd_drop_conv_nth nth_append)
    moreover from that pre have "pre ! j \<noteq> 0x7B"
      by (metis nth_mem)
    moreover have "hd (take 6 (drop j ?t)) = hd (drop j ?t)"
      by (rule hd_take) simp
    moreover have "hd (js ''{{LINK'') = 0x7B"
      by (simp add: js_open)
    ultimately have "take 6 (drop j ?t) \<noteq> js ''{{LINK''"
      by metis
    then show ?thesis by (simp add: placeholderAttempt_def)
  qed
  have "regexScan (placeholderAttempt ?t) 0 (length ?t) =
      Some \<lparr>index = length pre, matched = js ''{{LINK'' @ suf @ js ''}}'',
           captures = [Some suf], groups = None\<rparr>"
    by (rule regexScan_first [where i = "length pre"]) (use at before in auto)
  then show ?thesis by (simp add: placeholderRegex_def)
qed

subsection \<open>The document after the command\<close>

lemma splitLines_plain: "0x0A \<notin> set x \<Longrightarrow> splitLines x = [x]"
  by (induction x) auto

lemma splitLines_feed: "0x0A \<notin> set x \<Longrightarrow> splitLines (x @ 0x0A # r) = x # splitLines r"
  by (induction x) auto

lemma splitLines_join:
  "xs \<noteq> [] \<Longrightarrow> \<forall>x \<in> set xs. 0x0A \<notin> set x \<Longrightarrow> splitLines (join [0x0A] xs) = xs"
proof (induction "[0x0A :: jschar]" xs rule: join.induct)
  case 1
  then show ?case by simp
next
  case (2 x)
  then show ?case by (simp add: splitLines_plain)
next
  case (3 x y ys)
  then show ?case by (simp add: splitLines_feed)
qed

lemma withoutTrailingWhitespace_subset: "set (withoutTrailingWhitespace s) \<subseteq> set s"
  unfolding withoutTrailingWhitespace_def by (auto dest: set_dropWhileD)

lemma characters_no_feed: "0x0A \<notin> set characters"
  by code_simp

text \<open>
  The document after the command. When no line of the document holds a line feed, the
  command replaces the selected lines by the updated lines of the loop, one for one, and
  leaves the other lines and the selection as they are.
\<close>

lemma copyForwardLines_document:
  assumes "newRegExp host (updatedRegexString (lineFormatFrom settings)) = Inr re"
    and "copyLoop host settings copy (editor w) (pos_line (cursorFrom (editor w))) initialLoopState = Inr st"
    and "pos_line (cursorFrom (editor w)) \<le> pos_line (cursorTo (editor w))"
    and "pos_line (cursorTo (editor w)) < length (lines (editor w))"
    and "\<forall>l \<in> set (lines (editor w)). 0x0A \<notin> set l"
  shows "\<exists>w'. copyForwardLines host settings copy w = Returned w' \<and>
           lines (editor w') =
             take (pos_line (cursorFrom (editor w))) (lines (editor w)) @ updatedLines st @
             drop (Suc (pos_line (cursorTo (editor w)))) (lines (editor w)) \<and>
           cursorFrom (editor w') = cursorFrom (editor w) \<and>
           cursorTo (editor w') = cursorTo (editor w)"
proof -
  let ?ed = "editor w"
  let ?min = "pos_line (cursorFrom ?ed)" and ?max = "pos_line (cursorTo ?ed)"
  have len: "length (updatedLines st) = ?max - ?min + 1"
    using copyLoop_length(1) [OF assms(2)] assms(3) by (simp add: initialLoopState_simps)
  then have ne: "updatedLines st \<noteq> []" by auto
  have nofeed: "0x0A \<notin> set u" if "u \<in> set (updatedLines st)" for u
  proof -
    from that obtain k where k: "k < length (updatedLines st)" "u = updatedLines st ! k"
      by (auto simp: in_set_conv_nth)
    with len assms(3) have "?min \<le> ?min + k" "?min + k \<le> ?max" by simp_all
    from copyLoop_trace [OF assms(2) this] obtain a b where
      ab: "loopBody host settings copy ?ed (?min + k) a = Inr b"
        "length (updatedLines a) = k" "prefix (updatedLines b) (updatedLines st)"
      by (auto simp: initialLoopState_simps)
    from loopBody_step(1,2) [OF ab(1)] obtain v where
      v: "?min + k < length (lines ?ed)" "updatedLines b = updatedLines a @ [v]"
        "v = lines ?ed ! (?min + k) \<or> mintedAnchor (lines ?ed ! (?min + k)) v"
      by blast
    from prefix_snoc_nth(1) [of "updatedLines a" v "updatedLines st"] ab(2,3) v(2) k(2)
    have "u = v" by simp
    from v(1) assms(5) have line: "0x0A \<notin> set (lines ?ed ! (?min + k))" by simp
    from v(3) show ?thesis
    proof
      assume "v = lines ?ed ! (?min + k)"
      with line \<open>u = v\<close> show ?thesis by simp
    next
      assume "mintedAnchor (lines ?ed ! (?min + k)) v"
      then obtain ident where "set ident \<subseteq> set characters"
        "v = withoutTrailingWhitespace (lines ?ed ! (?min + k)) @ js '' ^'' @ ident"
        by blast
      with line withoutTrailingWhitespace_subset [of "lines ?ed ! (?min + k)"]
        characters_no_feed \<open>u = v\<close>
      show ?thesis by (auto simp: js_space_caret)
    qed
  qed
  then have "splitLines (join [0x0A] (updatedLines st)) = updatedLines st"
    using ne by (intro splitLines_join) auto
  then show ?thesis
    unfolding copyForwardLines_run [OF assms(1,2,4)]
    by (simp add: transaction_def writeText_def Notice_def)
qed

section \<open>The claims\<close>

subsection \<open>C1: an invalid pattern aborts the command\<close>

text \<open>
  C1. If \<^verbatim>\<open>lineFormatFrom\<close> does not compile, the command stops before it does anything
  else: the editor and the clipboard stay as they are, and the only effect is a notice
  of 30 seconds that shows the pattern and the error of the compiler. The command
  compiles the pattern as \<^verbatim>\<open>validateRegex\<close> prepares it, that is, with the two-character
  sequences \<^verbatim>\<open>\n\<close>, \<^verbatim>\<open>\t\<close> and \<^verbatim>\<open>\r\<close> turned into the characters they name, and it
  is that text which the notice shows; for a pattern without such a sequence it is the
  setting itself. The constructor \<^verbatim>\<open>RegExp\<close> is the host's and is left open.
\<close>

theorem invalid_lineFormatFrom_aborts:
  assumes "newRegExp host (updatedRegexString (lineFormatFrom settings)) = Inl e"
  shows "copyForwardLines host settings copy w =
           Returned (w\<lparr>notices := notices w @
             [(js ''Error: '' @ [0x27] @ js ''From'' @ [0x27] @ js '' setting is invalid:'' @
               [0x0A, 0x0A] @
               [0x22] @ updatedRegexString (lineFormatFrom settings) @ [0x22, 0x3A, 0x20, 0x22] @
               e @ [0x22] @
               [0x0A, 0x0A] @ js ''Please update the Carry-Forward settings and try again.'',
               Some 30000)]\<rparr>)"
  using assms
  by (simp add: copyForwardLines_def validateRegex_def Notice_def invalidNotice_def)

text \<open>
  The pattern \<^verbatim>\<open>[abc\<close> of the specification, on a document of two lines that are both
  selected: the pattern is compiled as it is written, and the document and the
  clipboard are those of before.
\<close>

theorem invalid_lineFormatFrom_aborts_witness:
  "newRegExp exampleHost
     (updatedRegexString (lineFormatFrom (DEFAULT_SETTINGS\<lparr>lineFormatFrom := js ''[abc''\<rparr>))) =
     Inl (js ''SyntaxError: Invalid regular expression'') \<and>
   updatedRegexString (js ''[abc'') = js ''[abc'' \<and>
   (\<exists>message.
      copyForwardLines exampleHost (DEFAULT_SETTINGS\<lparr>lineFormatFrom := js ''[abc''\<rparr>) SeparateLines
        (exampleWorld [js ''foo'', js ''bar''] (0, 0) (1, 3)) =
      Returned \<lparr>editor = exampleEditor [js ''foo'', js ''bar''] (0, 0) (1, 3), clipboard = [],
                notices = [(message, Some 30000)]\<rparr>)"
proof -
  have u: "updatedRegexString (js ''[abc'') = js ''[abc''"
    by code_simp
  have h: "newRegExp exampleHost
      (updatedRegexString (lineFormatFrom (DEFAULT_SETTINGS\<lparr>lineFormatFrom := js ''[abc''\<rparr>))) =
      Inl (js ''SyntaxError: Invalid regular expression'')"
    by (simp add: u exampleHost_def) (simp add: js_def)
  show ?thesis
    using h u
      invalid_lineFormatFrom_aborts [OF h, of SeparateLines
        "exampleWorld [js ''foo'', js ''bar''] (0, 0) (1, 3)"]
    by (simp add: exampleWorld_def)
qed

subsection \<open>C2: an existing anchor is reused\<close>

text \<open>
  C2 says that a line which already ends with an anchor token keeps it, gets no new
  identifier, and that the token does not appear in the copy. The link step takes the
  token off the copy with \<^verbatim>\<open>.replace(blockIDRegex, "")\<close> (line 145), and the pattern
  needs a character before the caret, so a token at the very start of the copy slice
  is not found. On the line \<^verbatim>\<open>" ^abc12"\<close> under a collapsed cursor the pattern finds the
  token in the line, the line stays as it is and the link is to \<^verbatim>\<open>^abc12\<close>; but line 81
  has taken the leading space off the copy, the slice is \<^verbatim>\<open>^abc12\<close>, and the token goes
  to the clipboard in front of the link.
\<close>

theorem anchor_token_at_start_of_slice_is_copied:
  "blockIDRegex (js '' ^abc12'') = Some (simpleMatch 1 (js ''^abc12'')) \<and>
   copySlice DEFAULT_SETTINGS \<lparr>pos_line = 0, pos_ch = 0\<rparr> \<lparr>pos_line = 0, pos_ch = 0\<rparr> 0
     (js '' ^abc12'') = js ''^abc12'' \<and>
   blockIDRegex (js ''^abc12'') = None \<and>
   copyForwardLines exampleHost DEFAULT_SETTINGS SeparateLines
     (exampleWorld [js '' ^abc12''] (0, 0) (0, 0)) =
   Returned
     \<lparr>editor = exampleEditor [js '' ^abc12''] (0, 0) (0, 0),
      clipboard = js ''^abc12 (see [[note#^abc12]])'',
      notices = [(js ''Copied'', None)]\<rparr>"
  by code_simp

text \<open>
  What the link step does on a line in which \<^verbatim>\<open>blockIDRegex\<close> finds an anchor token,
  whatever the copy slice is (any line in \<^verbatim>\<open>SeparateLines\<close>, the first line of the
  selection in the other modes). The loop body leaves the line and the state as they
  are but for the two outputs: the line is appended unchanged to the updated lines, no
  random value is drawn and \<^verbatim>\<open>newID\<close> is not set, and the link is generated for \<^verbatim>\<open>#\<close>
  followed by the token that was found, which is the end of the line. In the link-only
  modes the copy is that link (after \<^verbatim>\<open>!\<close>, or inside \<^verbatim>\<open>copiedLinkText\<close>); in the two
  other modes it is the copy slice after \<^verbatim>\<open>.replace(blockIDRegex, "")\<close> and the
  replacement of \<^verbatim>\<open>lineFormatFrom\<close>. When the pattern finds the token in the copy slice,
  the slice is cut there, and what is left has no trailing anchor token any more. Last,
  if the line is one that an earlier run of the link step wrote when it minted an
  identifier, the token found now is that identifier: both runs ask for a link to the
  same anchor.
\<close>

lemma existing_anchor_is_reused:
  assumes "n < length (lines ed)"
    and "copy = SeparateLines \<or> n = pos_line (cursorFrom ed)"
    and "blockIDRegex (lines ed ! n) = Some m"
    and "copy = LinkOnly \<or> copy = LinkOnlyEmbed \<or>
         newRegExp host (lineFormatFrom settings) = Inr re"
  shows "loopBody host settings copy ed n st =
           Inr (st\<lparr>copiedLines := copiedLines st @
                     [let link = generateMarkdownLink host (js ''#'' @ matched m) (linkText settings);
                          copiedLine = copySlice settings (cursorFrom ed) (cursorTo ed) n (lines ed ! n)
                      in if copy = LinkOnlyEmbed then js ''!'' @ link
                         else if copy = LinkOnly then substituteLink (copiedLinkText settings) link
                         else replace (replace copiedLine blockIDRegex []) re
                                (substituteLink (lineFormatTo settings) link)],
                   updatedLines := updatedLines st @ [lines ed ! n]\<rparr>) \<and>
         lines ed ! n = take (index m) (lines ed ! n) @ matched m \<and>
         (\<forall>slice m'. blockIDRegex slice = Some m' \<longrightarrow>
            replace slice blockIDRegex [] = take (index m') slice \<and>
            blockIDRegex (take (index m') slice) = None) \<and>
         (\<forall>host0 settings0 copy0 line0 copiedLine0 st0 copiedLine1 st1.
            blockIDRegex line0 = None \<and>
            linkLine host0 settings0 copy0 line0 copiedLine0 st0 = Inr (lines ed ! n, copiedLine1, st1)
            \<longrightarrow> matched m = newID st1)"
proof (intro conjI allI impI)
  let ?line = "lines ed ! n"
  let ?slice = "copySlice settings (cursorFrom ed) (cursorTo ed) n ?line"
  let ?link = "generateMarkdownLink host (js ''#'' @ matched m) (linkText settings)"
  have nb: "\<not> blankShortcut ed n"
    using anchored_not_blank [OF assms(3)] by (simp add: blankShortcut_def)
  have ll: "linkLine host settings copy ?line ?slice st =
      Inr (?line,
           if copy = LinkOnlyEmbed then js ''!'' @ ?link
           else if copy = LinkOnly then substituteLink (copiedLinkText settings) ?link
           else replace (replace ?slice blockIDRegex []) re
                  (substituteLink (lineFormatTo settings) ?link),
           st)"
  proof (cases "copy = LinkOnly \<or> copy = LinkOnlyEmbed")
    case True
    then show ?thesis using assms(3) by (auto simp: linkLine_def Let_def)
  next
    case False
    with assms(4) have re: "newRegExp host (lineFormatFrom settings) = Inr re"
      by auto
    from False re assms(3) show ?thesis
      by (simp add: linkLine_def Let_def)
  qed
  show "loopBody host settings copy ed n st =
           Inr (st\<lparr>copiedLines := copiedLines st @
                     [let link = generateMarkdownLink host (js ''#'' @ matched m) (linkText settings);
                          copiedLine = copySlice settings (cursorFrom ed) (cursorTo ed) n (lines ed ! n)
                      in if copy = LinkOnlyEmbed then js ''!'' @ link
                         else if copy = LinkOnly then substituteLink (copiedLinkText settings) link
                         else replace (replace copiedLine blockIDRegex []) re
                                (substituteLink (lineFormatTo settings) link)],
                   updatedLines := updatedLines st @ [lines ed ! n]\<rparr>)"
    unfolding loopBody_link [OF assms(1) nb assms(2)] ll Let_def by simp
next
  from assms(3) obtain i where "m = simpleMatch i (drop i (lines ed ! n))"
    by (rule blockIDRegex_SomeD)
  then show "lines ed ! n = take (index m) (lines ed ! n) @ matched m"
    by (simp add: simpleMatch_def)
next
  fix slice m'
  assume "blockIDRegex slice = Some m'"
  then show "replace slice blockIDRegex [] = take (index m') slice"
    by (rule replace_blockID)
next
  fix slice m'
  assume "blockIDRegex slice = Some m'"
  then show "blockIDRegex (take (index m') slice) = None"
    by (rule blockIDRegex_cut)
next
  fix host0 settings0 copy0 line0 copiedLine0 st0 copiedLine1 st1
  assume a: "blockIDRegex line0 = None \<and>
            linkLine host0 settings0 copy0 line0 copiedLine0 st0 = Inr (lines ed ! n, copiedLine1, st1)"
  then have none: "blockIDRegex line0 = None"
    and ll0: "linkLine host0 settings0 copy0 line0 copiedLine0 st0 = Inr (lines ed ! n, copiedLine1, st1)"
    by simp_all
  obtain ident pos where g: "genID (mathRandom host0) 5 (draws st0) = (ident, pos)"
    by (cases "genID (mathRandom host0) 5 (draws st0)")
  from genID_props [OF g] have "ident \<noteq> []" and "list_all isIDChar ident"
    by (auto intro: characters_list_all)
  from blockIDRegex_appended [OF this]
  have "blockIDRegex (withoutTrailingWhitespace line0 @ js '' ^'' @ ident) =
      Some (simpleMatch (Suc (length (withoutTrailingWhitespace line0))) (js ''^'' @ ident))"
    by (simp add: js_space_caret js_caret)
  moreover from linkLine_minted(1,3) [OF ll0 none] g
  have "lines ed ! n = withoutTrailingWhitespace line0 @ js '' ^'' @ ident" and "newID st1 = js ''^'' @ ident"
    by simp_all
  ultimately have "Some m =
      Some (simpleMatch (Suc (length (withoutTrailingWhitespace line0))) (newID st1))"
    using assms(3) by simp
  then have "m = simpleMatch (Suc (length (withoutTrailingWhitespace line0))) (newID st1)"
    by simp
  then show "matched m = newID st1"
    by (simp add: simpleMatch_def)
qed

text \<open>
  Three runs of the command with the default settings. The line \<^verbatim>\<open>foo ^abc12\<close> under a
  collapsed cursor: the line stays, and the copy is \<^verbatim>\<open>foo\<close> with the link to \<^verbatim>\<open>^abc12\<close>.
  The line \<^verbatim>\<open>foo bar ^abc12\<close> with its first three columns selected: the line stays and
  the existing anchor is linked, though the copy slice holds no token. The lines \<^verbatim>\<open>foo\<close>
  and \<^verbatim>\<open>bar ^abc12\<close> in \<^verbatim>\<open>CombinedLines\<close>: only the first line goes through the link
  step, and the second is copied as it is, token included.
\<close>

lemma existing_anchor_examples:
  "copyForwardLines exampleHost DEFAULT_SETTINGS SeparateLines
     (exampleWorld [js ''foo ^abc12''] (0, 0) (0, 0)) =
   Returned
     \<lparr>editor = exampleEditor [js ''foo ^abc12''] (0, 0) (0, 0),
      clipboard = js ''foo (see [[note#^abc12]])'',
      notices = [(js ''Copied'', None)]\<rparr> \<and>
   copyForwardLines exampleHost DEFAULT_SETTINGS SeparateLines
     (exampleWorld [js ''foo bar ^abc12''] (0, 0) (0, 3)) =
   Returned
     \<lparr>editor = exampleEditor [js ''foo bar ^abc12''] (0, 0) (0, 3),
      clipboard = js ''foo (see [[note#^abc12]])'',
      notices = [(js ''Copied'', None)]\<rparr> \<and>
   copyForwardLines exampleHost DEFAULT_SETTINGS CombinedLines
     (exampleWorld [js ''foo'', js ''bar ^abc12''] (0, 0) (1, 10)) =
   Returned
     \<lparr>editor = exampleEditor [js ''foo ^abcde'', js ''bar ^abc12''] (0, 0) (1, 10),
      clipboard = join [0x0A] [js ''fo (see [[note#^abcde]])'', js ''bar ^abc12''],
      notices = [(js ''Copied'', None)]\<rparr>"
  by code_simp

text \<open>
  The command run twice on the line \<^verbatim>\<open>foo\<close>: the first run appends \<^verbatim>\<open>^abcde\<close>, the second
  run leaves the line as the first wrote it, and both copies link to \<^verbatim>\<open>^abcde\<close>.
\<close>

lemma forwarding_twice_example:
  "copyForwardLines exampleHost DEFAULT_SETTINGS SeparateLines (exampleWorld [js ''foo''] (0, 0) (0, 0)) =
     Returned
       \<lparr>editor = exampleEditor [js ''foo ^abcde''] (0, 0) (0, 0),
        clipboard = js ''foo (see [[note#^abcde]])'',
        notices = [(js ''Copied'', None)]\<rparr> \<and>
   copyForwardLines exampleHost DEFAULT_SETTINGS SeparateLines
     \<lparr>editor = exampleEditor [js ''foo ^abcde''] (0, 0) (0, 0),
      clipboard = js ''foo (see [[note#^abcde]])'',
      notices = [(js ''Copied'', None)]\<rparr> =
     Returned
       \<lparr>editor = exampleEditor [js ''foo ^abcde''] (0, 0) (0, 0),
        clipboard = js ''foo (see [[note#^abcde]])'',
        notices = [(js ''Copied'', None), (js ''Copied'', None)]\<rparr>"
  by code_simp

subsection \<open>C3: link-only modes and blank lines\<close>

text \<open>
  C3 says that \<^verbatim>\<open>LinkOnly\<close> and \<^verbatim>\<open>LinkOnlyEmbed\<close> produce exactly one copy line, also
  when the selection contains lines of whitespace. The guard of lines 154-161 keeps the
  lines after the first out of the copy, but the shortcut for blank lines (lines 94-101)
  pushes its copy before that guard is reached. With the three lines \<^verbatim>\<open>foo\<close>, an empty
  line and \<^verbatim>\<open>bar\<close> selected, the clipboard receives two lines: the link and the empty
  line.
\<close>

theorem linkOnly_blank_line_is_copied:
  "copyForwardLines exampleHost DEFAULT_SETTINGS LinkOnly
     (exampleWorld [js ''foo'', [], js ''bar''] (0, 0) (2, 3)) =
   Returned
     \<lparr>editor = exampleEditor [js ''foo ^abcde'', [], js ''bar''] (0, 0) (2, 3),
      clipboard = join [0x0A] [js ''(see [[note#^abcde]])'', []],
      notices = [(js ''Copied'', None)]\<rparr>"
  by code_simp

subsection \<open>C4: the copy slice of the first line\<close>

text \<open>
  C4 says that on the first line of a selection of several lines the copy slice runs
  from the start column to the end of the line. Line 90 ends the slice at
  \<^verbatim>\<open>line.length - 1\<close>, and the end of a slice is exclusive, so the last character of the
  line is lost: for the line \<^verbatim>\<open>foo\<close>, selected from column 0 on into the next line, the
  slice is \<^verbatim>\<open>fo\<close>.
\<close>

theorem first_line_slice_loses_last_character:
  "copySlice DEFAULT_SETTINGS \<lparr>pos_line = 0, pos_ch = 0\<rparr> \<lparr>pos_line = 1, pos_ch = 3\<rparr> 0
     (js ''foo'') = js ''fo''"
  by code_simp

text \<open>
  The other cases of C4 are as the claim says: a line inside the selection is copied
  whole, the last line up to the end column, and the line of a collapsed cursor whole
  (without its leading whitespace when \<^verbatim>\<open>removeLeadingWhitespace\<close> is set). On the first
  line the slice stops one character before the end of the line.
\<close>

lemma copySlice_last:
  assumes "pos_line selFrom < pos_line selTo"
  shows "copySlice settings selFrom selTo (pos_line selTo) line = take (pos_ch selTo) line"
  using assms by (simp add: copySlice_def Let_def slice_from_zero)

lemma copySlice_first:
  assumes "pos_line selFrom < pos_line selTo" and "pos_ch selFrom \<le> length line"
  shows "copySlice settings selFrom selTo (pos_line selFrom) line =
           take (length line - 1 - pos_ch selFrom) (drop (pos_ch selFrom) line)"
proof (cases "line = []")
  case True
  with assms show ?thesis by (simp add: copySlice_def Let_def slice_def)
next
  case False
  then have "0 < length line" by simp
  with assms show ?thesis
    by (simp add: copySlice_def Let_def slice_def min_def nat_diff_distrib')
qed

lemma copySlice_collapsed:
  assumes "pos_line selFrom = pos_line selTo" and "pos_ch selFrom = pos_ch selTo"
  shows "copySlice settings selFrom selTo (pos_line selFrom) line =
           (if removeLeadingWhitespace settings then dropWhile isSpace line else line)"
  using assms
  by (simp add: copySlice_def Let_def replace_def leadingWhitespaceRegex_def simpleMatch_def
      dropWhile_eq_drop)

subsection \<open>C5: which lines count as anchored\<close>

text \<open>
  C5 says that a line is anchored when its anchor token follows whitespace or the start
  of the line, so that a line made of an anchor token alone is anchored. In the class
  \<^verbatim>\<open>[\s^]\<close> of the lookbehind the caret is a character, not the start of the line: the
  line \<^verbatim>\<open>^abc12\<close> is not matched by \<^verbatim>\<open>blockIDRegex\<close>, and forwarding it appends a
  second identifier to it and leaves the first one in the copy.
\<close>

theorem lone_anchor_is_not_detected:
  "blockIDRegex (js ''^abc12'') = None \<and>
   copyForwardLines exampleHost DEFAULT_SETTINGS SeparateLines
     (exampleWorld [js ''^abc12''] (0, 0) (0, 0)) =
   Returned
     \<lparr>editor = exampleEditor [js ''^abc12 ^abcde''] (0, 0) (0, 0),
      clipboard = js ''^abc12 (see [[note#^abcde]])'',
      notices = [(js ''Copied'', None)]\<rparr>"
  by code_simp

text \<open>
  What \<^verbatim>\<open>blockIDRegex\<close> finds: a caret that stands after a whitespace character or after
  another caret, followed by identifier characters up to the end of the line.
\<close>

lemma blockIDRegex_iff:
  "blockIDRegex s \<noteq> None \<longleftrightarrow>
     (\<exists>i. 0 < i \<and> i < length s \<and> (isSpace (s ! (i - 1)) \<or> s ! (i - 1) = 0x5E) \<and> s ! i = 0x5E \<and>
        drop (Suc i) s \<noteq> [] \<and> list_all isIDChar (drop (Suc i) s))"
proof
  assume "blockIDRegex s \<noteq> None"
  then obtain m where "blockIDRegex s = Some m" by blast
  then show "\<exists>i. 0 < i \<and> i < length s \<and> (isSpace (s ! (i - 1)) \<or> s ! (i - 1) = 0x5E) \<and> s ! i = 0x5E \<and>
        drop (Suc i) s \<noteq> [] \<and> list_all isIDChar (drop (Suc i) s)"
    by (rule blockIDRegex_SomeD) blast
next
  assume "\<exists>i. 0 < i \<and> i < length s \<and> (isSpace (s ! (i - 1)) \<or> s ! (i - 1) = 0x5E) \<and> s ! i = 0x5E \<and>
        drop (Suc i) s \<noteq> [] \<and> list_all isIDChar (drop (Suc i) s)"
  then obtain i where c: "0 < i \<and> i < length s \<and>
      (isSpace (s ! (i - 1)) \<or> s ! (i - 1) = 0x5E) \<and> s ! i = 0x5E \<and>
      drop (Suc i) s \<noteq> [] \<and> list_all isIDChar (drop (Suc i) s)"
    by blast
  then have i: "i < length s" by simp
  from c have "blockIDAttempt s i = Some (simpleMatch i (drop i s))"
    by (auto simp: blockIDAttempt_def)
  then have "blockIDAttempt s i \<noteq> None" by simp
  show "blockIDRegex s \<noteq> None"
  proof
    assume "blockIDRegex s = None"
    then have "regexScan (blockIDAttempt s) 0 (length s) = None"
      by (simp add: blockIDRegex_def)
    from regexScan_NoneD [OF this, of i] i have "blockIDAttempt s i = None" by simp
    with \<open>blockIDAttempt s i \<noteq> None\<close> show False by contradiction
  qed
qed

subsection \<open>C6: the placeholder\<close>

text \<open>
  C6 says that the placeholder is replaced by the text of the link without its closing
  brackets, the captured suffix and the closing brackets. The source puts the text of
  the link into the replacement string of \<^verbatim>\<open>replace\<close>, where a dollar sign starts a
  replacement pattern: in the link to a note called \<^verbatim>\<open>Cost $100\<close> the characters \<^verbatim>\<open>$1\<close>
  are read as the first capture, which is empty for \<^verbatim>\<open>{{LINK}}\<close>, and in a link with
  \<^verbatim>\<open>$$\<close> the two dollar signs become one.
\<close>

theorem substituteLink_expands_dollar_in_link:
  "substituteLink (js ''(see {{LINK}})'') (js ''[[Cost $100#^ab12c]]'') =
     js ''(see [[Cost 00#^ab12c]])'' \<and>
   substituteLink (js ''(see {{LINK}})'') (js ''[[a$$b#^ab12c]]'') =
     js ''(see [[a$b#^ab12c]])''"
  by code_simp

text \<open>The example of the specification, whose link has no dollar sign, comes out as stated.\<close>

lemma substituteLink_example:
  "substituteLink (js ''(see {{LINK|alt}})'') (js ''[[note#^ab12c]]'') =
     js ''(see [[note#^ab12c|alt]])''"
  by code_simp

text \<open>
  For a template with one placeholder (no opening brace before it, no line terminator
  in its suffix, no closing brace after it) and a link that ends with \<^verbatim>\<open>]]\<close> and has no
  dollar sign, the rule of C6 holds as it is stated.
\<close>

lemma substituteLink_rule:
  assumes "0x7B \<notin> set pre" and "\<forall>c \<in> set suf. \<not> isLineTerminator c" and "0x7D \<notin> set post"
    and "0x24 \<notin> set base"
  shows "substituteLink (pre @ js ''{{LINK'' @ suf @ js ''}}'' @ post) (base @ js '']]'') =
           pre @ base @ suf @ js '']]'' @ post"
proof -
  have "getSubstitution m str p [Some suf] None (base @ js ''$1]]'') = base @ suf @ js '']]''"
    for m str p
    using assms(4) by (simp add: getSubstitution_prefix getSubstitution_dollar1)
  then show ?thesis
    unfolding substituteLink_def replace_closeBrackets
    unfolding replace_def placeholderRegex_found [OF assms(1-3)]
    by (simp add: js_lengths)
qed

subsection \<open>C7: one copy line per selected line in SeparateLines\<close>



subsection \<open>C8: a blank line inside the selection\<close>

text \<open>
  C8. A line of whitespace that lies strictly between the first and the last line of
  the selection is passed through in every mode: the loop body appends the line itself
  to the copy and to the updated lines and changes nothing else in its state, so no
  identifier is minted and no link is made. In the result of the whole loop the line
  stands at its own place among the updated lines and is one of the copy lines (at its
  own place in \<^verbatim>\<open>SeparateLines\<close> and \<^verbatim>\<open>CombinedLines\<close>).
\<close>

theorem blank_interior_line_passes_through:
  assumes "n < length (lines ed)" and "list_all isSpace (lines ed ! n)"
    and "pos_line (cursorFrom ed) < n" and "n < pos_line (cursorTo ed)"
  shows "loopBody host settings copy ed n st =
           Inr (st\<lparr>copiedLines := copiedLines st @ [lines ed ! n],
                   updatedLines := updatedLines st @ [lines ed ! n]\<rparr>) \<and>
         (\<forall>st'. copyLoop host settings copy ed (pos_line (cursorFrom ed)) initialLoopState = Inr st' \<longrightarrow>
            updatedLines st' ! (n - pos_line (cursorFrom ed)) = lines ed ! n \<and>
            lines ed ! n \<in> set (copiedLines st') \<and>
            (copy = SeparateLines \<or> copy = CombinedLines \<longrightarrow>
               copiedLines st' ! (n - pos_line (cursorFrom ed)) = lines ed ! n))"
proof -
  have blank: "blankShortcut ed n"
    using assms(2,3) by (simp add: blankShortcut_def blankLineRegex_def)
  have slice: "copySlice settings (cursorFrom ed) (cursorTo ed) n (lines ed ! n) = lines ed ! n"
    using assms(3,4) by (intro copySlice_interior) simp_all
  have body: "loopBody host settings copy ed n s =
           Inr (s\<lparr>copiedLines := copiedLines s @ [lines ed ! n],
                  updatedLines := updatedLines s @ [lines ed ! n]\<rparr>)" for s
    using loopBody_blank [OF assms(1) blank, of host settings copy s] slice by simp
  have run: "updatedLines st' ! (n - pos_line (cursorFrom ed)) = lines ed ! n \<and>
            lines ed ! n \<in> set (copiedLines st') \<and>
            (copy = SeparateLines \<or> copy = CombinedLines \<longrightarrow>
               copiedLines st' ! (n - pos_line (cursorFrom ed)) = lines ed ! n)"
    if "copyLoop host settings copy ed (pos_line (cursorFrom ed)) initialLoopState = Inr st'" for st'
  proof -
    from assms(3,4) have "pos_line (cursorFrom ed) \<le> n" and "n \<le> pos_line (cursorTo ed)"
      by simp_all
    from copyLoop_trace [OF that this] obtain a b where
      ab: "loopBody host settings copy ed n a = Inr b"
        "length (updatedLines a) = n - pos_line (cursorFrom ed)"
        "copy = SeparateLines \<or> copy = CombinedLines \<longrightarrow>
           length (copiedLines a) = n - pos_line (cursorFrom ed)"
        "prefix (updatedLines b) (updatedLines st')" "prefix (copiedLines b) (copiedLines st')"
      by (auto simp: initialLoopState_simps)
    from ab(1) body [of a] have b: "updatedLines b = updatedLines a @ [lines ed ! n]"
      "copiedLines b = copiedLines a @ [lines ed ! n]"
      by auto
    from prefix_snoc_nth(1) [of "updatedLines a" "lines ed ! n" "updatedLines st'"] ab(2,4) b(1)
    have "updatedLines st' ! (n - pos_line (cursorFrom ed)) = lines ed ! n" by simp
    moreover from prefix_snoc_nth(2) [of "copiedLines a" "lines ed ! n" "copiedLines st'"] ab(5) b(2)
    have "lines ed ! n \<in> set (copiedLines st')" by simp
    moreover from prefix_snoc_nth(1) [of "copiedLines a" "lines ed ! n" "copiedLines st'"] ab(3,5) b(2)
    have "copy = SeparateLines \<or> copy = CombinedLines \<longrightarrow>
               copiedLines st' ! (n - pos_line (cursorFrom ed)) = lines ed ! n" by auto
    ultimately show ?thesis by simp
  qed
  from body [of st] run show ?thesis by blast
qed

text \<open>The line of two spaces between \<^verbatim>\<open>foo\<close> and \<^verbatim>\<open>bar\<close>, in \<^verbatim>\<open>LinkOnly\<close>.\<close>

theorem blank_interior_line_passes_through_witness:
  "list_all isSpace (lines (exampleEditor [js ''foo'', js ''  '', js ''bar''] (0, 0) (2, 3)) ! 1) \<and>
   loopBody exampleHost DEFAULT_SETTINGS LinkOnly
     (exampleEditor [js ''foo'', js ''  '', js ''bar''] (0, 0) (2, 3)) 1
     \<lparr>updatedLines = [js ''foo ^abcde''], copiedLines = [js ''(see [[note#^abcde]])''],
      newID = js ''^abcde'', draws = 5\<rparr> =
   Inr \<lparr>updatedLines = [js ''foo ^abcde'', js ''  ''],
        copiedLines = [js ''(see [[note#^abcde]])'', js ''  ''],
        newID = js ''^abcde'', draws = 5\<rparr>"
proof -
  let ?ed = "exampleEditor [js ''foo'', js ''  '', js ''bar''] (0, 0) (2, 3)"
  have h1: "1 < length (lines ?ed)"
    by (simp add: exampleEditor_def)
  have h2: "list_all isSpace (lines ?ed ! 1)"
    by code_simp
  have h3: "pos_line (cursorFrom ?ed) < 1"
    by (simp add: exampleEditor_def)
  have h4: "1 < pos_line (cursorTo ?ed)"
    by (simp add: exampleEditor_def)
  from blank_interior_line_passes_through [OF h1 h2 h3 h4, THEN conjunct1,
    of exampleHost DEFAULT_SETTINGS LinkOnly
      "\<lparr>updatedLines = [js ''foo ^abcde''], copiedLines = [js ''(see [[note#^abcde]])''],
        newID = js ''^abcde'', draws = 5\<rparr>"]
  have "loopBody exampleHost DEFAULT_SETTINGS LinkOnly ?ed 1
      \<lparr>updatedLines = [js ''foo ^abcde''], copiedLines = [js ''(see [[note#^abcde]])''],
       newID = js ''^abcde'', draws = 5\<rparr> =
    Inr \<lparr>updatedLines = [js ''foo ^abcde'', js ''  ''],
         copiedLines = [js ''(see [[note#^abcde]])'', js ''  ''],
         newID = js ''^abcde'', draws = 5\<rparr>"
    by (simp add: exampleEditor_def)
  with h2 show ?thesis by blast
qed

subsection \<open>C9: leading whitespace is removed from the copy only\<close>

text \<open>
  C9. With \<^verbatim>\<open>removeLeadingWhitespace\<close> set and a collapsed cursor on the line
  \<^verbatim>\<open>"   - item"\<close>, the copy slice is \<^verbatim>\<open>"- item"\<close>. The loop ends, in every mode, with the
  single updated line \<^verbatim>\<open>"   - item ^"\<close> followed by the five characters of the new
  identifier: the leading whitespace is kept, and the anchor token stands where the
  (here empty) trailing whitespace was.
\<close>

theorem collapsed_cursor_strips_copy_only:
  assumes "removeLeadingWhitespace settings"
    and "n < length (lines ed)" and "lines ed ! n = js ''   - item''"
    and "cursorFrom ed = \<lparr>pos_line = n, pos_ch = c\<rparr>"
    and "cursorTo ed = \<lparr>pos_line = n, pos_ch = c\<rparr>"
    and "copy = LinkOnly \<or> copy = LinkOnlyEmbed \<or>
         (\<exists>re. newRegExp host (lineFormatFrom settings) = Inr re)"
  shows "copySlice settings (cursorFrom ed) (cursorTo ed) n (lines ed ! n) = js ''- item'' \<and>
         (\<exists>st ident. copyLoop host settings copy ed n initialLoopState = Inr st \<and>
            length ident = 5 \<and> set ident \<subseteq> set characters \<and>
            newID st = js ''^'' @ ident \<and>
            updatedLines st = [js ''   - item ^'' @ ident])"
proof -
  let ?line = "js ''   - item''"
  have strip: "replace ?line leadingWhitespaceRegex [] = js ''- item''"
    by code_simp
  have slice: "copySlice settings (cursorFrom ed) (cursorTo ed) n (lines ed ! n) = js ''- item''"
    using assms(1,3,4,5) strip by (simp add: copySlice_def)
  have none: "blockIDRegex ?line = None"
    by code_simp
  have wtw: "withoutTrailingWhitespace ?line = ?line"
    by code_simp
  have min: "pos_line (cursorFrom ed) = n" and max: "pos_line (cursorTo ed) = n"
    using assms(4,5) by simp_all
  have "\<And>m. n \<le> m \<Longrightarrow> m \<le> pos_line (cursorTo ed) \<Longrightarrow> m < length (lines ed)"
    using assms(2) max by simp
  from copyLoop_total [OF this assms(6)] obtain st where
    st: "copyLoop host settings copy ed n initialLoopState = Inr st" by blast
  from max have "n \<le> pos_line (cursorTo ed)" by simp
  from copyLoop_unfold_step [OF st this] obtain st1 where
    body: "loopBody host settings copy ed n initialLoopState = Inr st1"
    and rest: "copyLoop host settings copy ed (Suc n) st1 = Inr st"
    by blast
  from max have "\<not> Suc n \<le> pos_line (cursorTo ed)" by simp
  from copyLoop_unfold_stop [OF rest this] have st_eq: "st = st1" .
  have nb: "\<not> blankShortcut ed n"
    using min max by (simp add: blankShortcut_def)
  have first: "copy = SeparateLines \<or> n = pos_line (cursorFrom ed)"
    using min by simp
  let ?r = "linkLine host settings copy (lines ed ! n)
      (copySlice settings (cursorFrom ed) (cursorTo ed) n (lines ed ! n)) initialLoopState"
  obtain line' copiedLine' s' where
    ll: "?r = Inr (line', copiedLine', s')"
    and st1: "st1 = s'\<lparr>copiedLines := copiedLines s' @ [copiedLine'],
                      updatedLines := updatedLines s' @ [line']\<rparr>"
    using body unfolding loopBody_link [OF assms(2) nb first]
    by (cases ?r) auto
  obtain ident pos where g: "genID (mathRandom host) 5 (draws initialLoopState) = (ident, pos)"
    by (cases "genID (mathRandom host) 5 (draws initialLoopState)")
  from none assms(3) have none': "blockIDRegex (lines ed ! n) = None" by simp
  from linkLine_minted(1,3,4) [OF ll none'] g assms(3) wtw
  have "line' = ?line @ js '' ^'' @ ident" and "newID s' = js ''^'' @ ident"
    and "updatedLines s' = []"
    by (simp_all add: initialLoopState_simps)
  with st1 st_eq have "newID st = js ''^'' @ ident"
    and "updatedLines st = [js ''   - item ^'' @ ident]"
    by (simp_all add: js_def)
  with st slice genID_props(1,3) [OF g] show ?thesis by blast
qed

text \<open>The line alone in a document, the cursor in column 3, default settings.\<close>

theorem collapsed_cursor_strips_copy_only_witness:
  "removeLeadingWhitespace DEFAULT_SETTINGS \<and>
   lines (exampleEditor [js ''   - item''] (0, 3) (0, 3)) ! 0 = js ''   - item'' \<and>
   copySlice DEFAULT_SETTINGS \<lparr>pos_line = 0, pos_ch = 3\<rparr> \<lparr>pos_line = 0, pos_ch = 3\<rparr> 0
     (js ''   - item'') = js ''- item'' \<and>
   (\<exists>st ident. copyLoop exampleHost DEFAULT_SETTINGS SeparateLines
        (exampleEditor [js ''   - item''] (0, 3) (0, 3)) 0 initialLoopState = Inr st \<and>
      length ident = 5 \<and> updatedLines st = [js ''   - item ^'' @ ident])"
proof -
  let ?ed = "exampleEditor [js ''   - item''] (0, 3) (0, 3)"
  have h1: "removeLeadingWhitespace DEFAULT_SETTINGS"
    by (simp add: DEFAULT_SETTINGS_def)
  have h2: "0 < length (lines ?ed)"
    by (simp add: exampleEditor_def)
  have h3: "lines ?ed ! 0 = js ''   - item''"
    by (simp add: exampleEditor_def)
  have h4: "cursorFrom ?ed = \<lparr>pos_line = 0, pos_ch = 3\<rparr>"
    by (simp add: exampleEditor_def)
  have h5: "cursorTo ?ed = \<lparr>pos_line = 0, pos_ch = 3\<rparr>"
    by (simp add: exampleEditor_def)
  have h6: "SeparateLines = LinkOnly \<or> SeparateLines = LinkOnlyEmbed \<or>
      (\<exists>re. newRegExp exampleHost (lineFormatFrom DEFAULT_SETTINGS) = Inr re)"
    by (simp add: exampleHost_def DEFAULT_SETTINGS_def)
  from collapsed_cursor_strips_copy_only [OF h1 h2 h3 h4 h5 h6] h1 h3 show ?thesis
    by (simp add: exampleEditor_def) blast
qed

text \<open>
  The whole command on that document, in \<^verbatim>\<open>SeparateLines\<close>: the clipboard gets the
  stripped text with the link, the document keeps its indentation.
\<close>

lemma collapsed_cursor_example:
  "copyForwardLines exampleHost DEFAULT_SETTINGS SeparateLines
     (exampleWorld [js ''   - item''] (0, 3) (0, 3)) =
   Returned
     \<lparr>editor = exampleEditor [js ''   - item ^abcde''] (0, 3) (0, 3),
      clipboard = js ''- item (see [[note#^abcde]])'',
      notices = [(js ''Copied'', None)]\<rparr>"
  by code_simp

subsection \<open>C10: the updated lines\<close>

text \<open>
  C10. In every mode, for a selection inside the document (and, in the two modes that
  use it, a pattern that compiles), the loop ends with one updated line for each
  selected line, in the order of the document, and the updated line of line
  \<open>minLine + k\<close> is either that line itself or that line without its trailing whitespace,
  followed by a space, a caret and five characters of \<open>characters\<close> (the lowercase
  letters, the hyphen and the digits).
\<close>

theorem updatedLines_one_per_line:
  assumes "pos_line (cursorFrom ed) \<le> pos_line (cursorTo ed)"
    and "pos_line (cursorTo ed) < length (lines ed)"
    and "copy = LinkOnly \<or> copy = LinkOnlyEmbed \<or>
         (\<exists>re. newRegExp host (lineFormatFrom settings) = Inr re)"
  shows "\<exists>st. copyLoop host settings copy ed (pos_line (cursorFrom ed)) initialLoopState = Inr st \<and>
           length (updatedLines st) = pos_line (cursorTo ed) - pos_line (cursorFrom ed) + 1 \<and>
           (\<forall>k \<le> pos_line (cursorTo ed) - pos_line (cursorFrom ed).
              updatedLines st ! k = lines ed ! (pos_line (cursorFrom ed) + k) \<or>
              (\<exists>ident. length ident = 5 \<and> set ident \<subseteq> set characters \<and>
                 updatedLines st ! k =
                   withoutTrailingWhitespace (lines ed ! (pos_line (cursorFrom ed) + k)) @
                   js '' ^'' @ ident))"
proof -
  let ?min = "pos_line (cursorFrom ed)" and ?max = "pos_line (cursorTo ed)"
  have "\<And>m. ?min \<le> m \<Longrightarrow> m \<le> ?max \<Longrightarrow> m < length (lines ed)"
    using assms(2) by simp
  from copyLoop_total [OF this assms(3)] obtain st where
    st: "copyLoop host settings copy ed ?min initialLoopState = Inr st" by blast
  have len: "length (updatedLines st) = ?max - ?min + 1"
    using copyLoop_length(1) [OF st] assms(1) by (simp add: initialLoopState_simps)
  have each: "updatedLines st ! k = lines ed ! (?min + k) \<or>
      mintedAnchor (lines ed ! (?min + k)) (updatedLines st ! k)" if "k \<le> ?max - ?min" for k
  proof -
    from that assms(1) have "?min \<le> ?min + k" and "?min + k \<le> ?max" by simp_all
    from copyLoop_trace [OF st this] obtain a b where
      ab: "loopBody host settings copy ed (?min + k) a = Inr b"
        "length (updatedLines a) = k" "prefix (updatedLines b) (updatedLines st)"
      by (auto simp: initialLoopState_simps)
    from loopBody_step(2) [OF ab(1)] obtain u where
      u: "updatedLines b = updatedLines a @ [u]"
        "u = lines ed ! (?min + k) \<or> mintedAnchor (lines ed ! (?min + k)) u"
      by blast
    from prefix_snoc_nth(1) [of "updatedLines a" u "updatedLines st"] ab(2,3) u(1)
    have "updatedLines st ! k = u" by simp
    with u(2) show ?thesis by simp
  qed
  from st len each show ?thesis by blast
qed

text \<open>Three selected lines in \<^verbatim>\<open>LinkOnly\<close>; the first one ends with two spaces.\<close>

theorem updatedLines_one_per_line_witness:
  "pos_line (cursorTo (exampleEditor [js ''foo  '', [], js ''bar ^abc12''] (0, 1) (2, 5))) <
     length (lines (exampleEditor [js ''foo  '', [], js ''bar ^abc12''] (0, 1) (2, 5))) \<and>
   (\<exists>st. copyLoop exampleHost DEFAULT_SETTINGS LinkOnly
            (exampleEditor [js ''foo  '', [], js ''bar ^abc12''] (0, 1) (2, 5)) 0
            initialLoopState = Inr st \<and>
      length (updatedLines st) = 3 \<and>
      (updatedLines st ! 0 = js ''foo  '' \<or>
       (\<exists>ident. length ident = 5 \<and> set ident \<subseteq> set characters \<and>
          updatedLines st ! 0 = js ''foo ^'' @ ident)))"
proof -
  let ?ed = "exampleEditor [js ''foo  '', [], js ''bar ^abc12''] (0, 1) (2, 5)"
  have h1: "pos_line (cursorFrom ?ed) \<le> pos_line (cursorTo ?ed)"
    by (simp add: exampleEditor_def)
  have h2: "pos_line (cursorTo ?ed) < length (lines ?ed)"
    by (simp add: exampleEditor_def)
  have h3: "LinkOnly = LinkOnly \<or> LinkOnly = LinkOnlyEmbed \<or>
      (\<exists>re. newRegExp exampleHost (lineFormatFrom DEFAULT_SETTINGS) = Inr re)"
    by simp
  have w: "withoutTrailingWhitespace (js ''foo  '') = js ''foo''"
    by code_simp
  from updatedLines_one_per_line [OF h1 h2 h3] obtain st where
    st: "copyLoop exampleHost DEFAULT_SETTINGS LinkOnly ?ed (pos_line (cursorFrom ?ed))
           initialLoopState = Inr st"
      "length (updatedLines st) = pos_line (cursorTo ?ed) - pos_line (cursorFrom ?ed) + 1"
    and each: "\<forall>k \<le> pos_line (cursorTo ?ed) - pos_line (cursorFrom ?ed).
        updatedLines st ! k = lines ?ed ! (pos_line (cursorFrom ?ed) + k) \<or>
        (\<exists>ident. length ident = 5 \<and> set ident \<subseteq> set characters \<and>
           updatedLines st ! k =
             withoutTrailingWhitespace (lines ?ed ! (pos_line (cursorFrom ?ed) + k)) @
             js '' ^'' @ ident)"
    by blast
  from each have "updatedLines st ! 0 = lines ?ed ! (pos_line (cursorFrom ?ed) + 0) \<or>
      (\<exists>ident. length ident = 5 \<and> set ident \<subseteq> set characters \<and>
         updatedLines st ! 0 =
           withoutTrailingWhitespace (lines ?ed ! (pos_line (cursorFrom ?ed) + 0)) @
           js '' ^'' @ ident)"
    by blast
  then have "updatedLines st ! 0 = js ''foo  '' \<or>
      (\<exists>ident. length ident = 5 \<and> set ident \<subseteq> set characters \<and>
         updatedLines st ! 0 = js ''foo ^'' @ ident)"
    by (simp add: exampleEditor_def w) (simp add: js_def)
  moreover from st have
    "copyLoop exampleHost DEFAULT_SETTINGS LinkOnly ?ed 0 initialLoopState = Inr st"
    "length (updatedLines st) = 3"
    by (simp_all add: exampleEditor_def)
  ultimately show ?thesis using h2 by blast
qed

end
